theory Spec2Isabelle
  imports Complex_Main "HOL-Library.Char_ord" "HOL-Library.List_Lexorder"
begin

section \<open>Strings as the server sees them\<close>

text \<open>
  Strings are lists of characters. The model covers the ASCII range: whitespace is the
  ASCII part of what \<^verbatim>\<open>String.prototype.trim\<close> removes, and case folding maps
  \<^verbatim>\<open>A-Z\<close> to \<^verbatim>\<open>a-z\<close>.
\<close>

definition isWhitespace :: "char \<Rightarrow> bool" where
  "isWhitespace c =
     (c = CHR '' '' \<or> c = CHR 0x09 \<or> c = CHR 0x0A \<or> c = CHR 0x0B \<or> c = CHR 0x0C \<or> c = CHR 0x0D)"

text \<open>\<^verbatim>\<open>s.trim()\<close>: whitespace removed at both ends.\<close>

definition trim :: "string \<Rightarrow> string" where
  "trim s = rev (dropWhile isWhitespace (rev (dropWhile isWhitespace s)))"

definition isUpper :: "char \<Rightarrow> bool" where
  "isUpper c = (65 \<le> (of_char c :: nat) \<and> (of_char c :: nat) \<le> 90)"

definition isLower :: "char \<Rightarrow> bool" where
  "isLower c = (97 \<le> (of_char c :: nat) \<and> (of_char c :: nat) \<le> 122)"

definition isDigit :: "char \<Rightarrow> bool" where
  "isDigit c = (48 \<le> (of_char c :: nat) \<and> (of_char c :: nat) \<le> 57)"

definition toLowerChar :: "char \<Rightarrow> char" where
  "toLowerChar c = (if isUpper c then char_of ((of_char c :: nat) + 32) else c)"

definition toUpperChar :: "char \<Rightarrow> char" where
  "toUpperChar c = (if isLower c then char_of ((of_char c :: nat) - 32) else c)"

definition toLowerCase :: "string \<Rightarrow> string" where
  "toLowerCase s = map toLowerChar s"

definition toUpperCase :: "string \<Rightarrow> string" where
  "toUpperCase s = map toUpperChar s"

text \<open>\<^verbatim>\<open>s.startsWith(p)\<close>.\<close>

fun startsWith :: "string \<Rightarrow> string \<Rightarrow> bool" where
  "startsWith s [] = True"
| "startsWith [] (p # ps) = False"
| "startsWith (c # cs) (p # ps) = (c = p \<and> startsWith cs ps)"

text \<open>\<^verbatim>\<open>s.includes(p)\<close>: \<open>p\<close> occurs in \<open>s\<close> as a contiguous substring.\<close>

fun includesStr :: "string \<Rightarrow> string \<Rightarrow> bool" where
  "includesStr [] p = (p = [])"
| "includesStr (c # cs) p = (startsWith (c # cs) p \<or> includesStr cs p)"

text \<open>
  \<^verbatim>\<open>s.replace(pat, rep)\<close> with a string pattern: only the first occurrence is
  replaced.
\<close>

fun replaceFirst :: "string \<Rightarrow> string \<Rightarrow> string \<Rightarrow> string" where
  "replaceFirst pat rep [] = (if pat = [] then rep else [])"
| "replaceFirst pat rep (c # cs) =
     (if startsWith (c # cs) pat then rep @ drop (length pat) (c # cs)
      else c # replaceFirst pat rep cs)"

text \<open>A JavaScript string used as a condition: true when present and non-empty.\<close>

fun truthy :: "string option \<Rightarrow> bool" where
  "truthy None = False"
| "truthy (Some s) = (s \<noteq> [])"

section \<open>Error classes and the global error handler\<close>

text \<open>
  The classes \<^verbatim>\<open>AppError\<close>, \<^verbatim>\<open>ValidationAppError\<close>, \<^verbatim>\<open>NotFoundError\<close> and
  \<^verbatim>\<open>UnauthorizedError\<close>. A validation error carries the failed checks as pairs of field
  and message. \<open>UnknownError\<close> stands for any thrown value that is not an \<^verbatim>\<open>AppError\<close>
  (a \<^verbatim>\<open>TypeError\<close> of the runtime, say).
\<close>

datatype app_error =
    AppError string nat
  | ValidationAppError "(string \<times> string) list"
  | NotFoundError string int
  | UnauthorizedError
  | UnknownError string

fun statusCode :: "app_error \<Rightarrow> nat" where
  "statusCode (AppError msg code) = code"
| "statusCode (ValidationAppError errs) = 400"
| "statusCode (NotFoundError resource i) = 404"
| "statusCode UnauthorizedError = 401"
| "statusCode (UnknownError msg) = 500"

text \<open>\<^verbatim>\<open>error.constructor.name\<close>.\<close>

fun constructorName :: "app_error \<Rightarrow> string" where
  "constructorName (AppError msg code) = ''AppError''"
| "constructorName (ValidationAppError errs) = ''ValidationAppError''"
| "constructorName (NotFoundError resource i) = ''NotFoundError''"
| "constructorName UnauthorizedError = ''UnauthorizedError''"
| "constructorName (UnknownError msg) = ''Error''"

text \<open>Decimal rendering of a number inside a template string.\<close>

fun showNat :: "nat \<Rightarrow> string" where
  "showNat n =
     (if n < 10 then [char_of (48 + n)]
      else showNat (n div 10) @ [char_of (48 + n mod 10)])"

declare showNat.simps [simp del]

definition showInt :: "int \<Rightarrow> string" where
  "showInt i = (if i < 0 then CHR ''-'' # showNat (nat (- i)) else showNat (nat i))"

fun message :: "app_error \<Rightarrow> string" where
  "message (AppError msg code) = msg"
| "message (ValidationAppError errs) = ''Validation failed''"
| "message (NotFoundError resource i) = resource @ '' with id '' @ showInt i @ '' not found''"
| "message UnauthorizedError = ''Unauthorized: Invalid or missing API key''"
| "message (UnknownError msg) = msg"

text \<open>
  Modelled from the spec: the schema of the table (\<^verbatim>\<open>prisma/schema.prisma\<close>) is not among
  the sources; the fields are those of the specification's data model, which are also the
  fields the handlers write and the frontend reads. \<open>UseCaseCreateInput\<close> is the
  \<^verbatim>\<open>data\<close> object handed to the ORM's \<^verbatim>\<open>create\<close>; a stored row adds the generated id
  and the timestamps. \<open>None\<close> is \<^verbatim>\<open>null\<close>.
\<close>

record UseCaseCreateInput =
  useCase :: string
  conceptDescription :: string
  concreteImplementation :: "string option"
  benefit :: "string option"
  industry :: "string option"
  department :: "string option"
  valueChainStep :: "string option"
  url :: "string option"

record UseCase = UseCaseCreateInput +
  rowId :: nat
  createdAt :: nat
  updatedAt :: nat

record Pagination =
  page :: int
  limit :: int
  total :: int
  totalPages :: int
  hasNext :: bool
  hasPrev :: bool

record Filters =
  f_industry :: "string option"
  f_valueChainStep :: "string option"
  f_department :: "string option"
  f_search :: "string option"

record PaginatedResponse =
  data :: "UseCase list"
  pagination :: Pagination
  filters :: Filters

text \<open>The JSON bodies the server sends.\<close>

datatype json_body =
    ErrorBody string string "(string \<times> string) list option"
  | ListBody PaginatedResponse
  | DataBody UseCase
  | CreatedBody string UseCase
  | FiltersBody "string list" "string list" "string list"
  | HealthBody string

type_synonym response = "nat \<times> json_body"

text \<open>
  The global error handler. The branches for the ORM's own exception classes are left out:
  the model of the store below never raises. For an unknown error the message is the one
  sent outside production mode.
\<close>

fun errorHandler :: "app_error \<Rightarrow> response" where
  "errorHandler (ValidationAppError errs) =
     (400, ErrorBody ''Validation failed'' ''VALIDATION_ERROR'' (Some errs))"
| "errorHandler (UnknownError msg) = (500, ErrorBody msg ''INTERNAL_SERVER_ERROR'' None)"
| "errorHandler e =
     (statusCode e,
      ErrorBody (message e)
        (replaceFirst ''ERROR'' ''_ERROR'' (toUpperCase (constructorName e))) None)"

section \<open>Requests\<close>

text \<open>
  A JavaScript object with string values (\<^verbatim>\<open>req.headers\<close>, \<^verbatim>\<open>req.query\<close>,
  \<^verbatim>\<open>req.params\<close>, \<^verbatim>\<open>req.body\<close>, a parsed CSV record) is a map from keys to strings; an
  absent key is \<^verbatim>\<open>undefined\<close>.
\<close>

type_synonym fields = "string \<rightharpoonup> string"

text \<open>A request; the path is the list of its segments.\<close>

record Request =
  httpMethod :: string
  path :: "string list"
  headers :: fields
  query :: fields
  body :: fields

section \<open>The API key middleware\<close>

text \<open>
  \<^verbatim>\<open>apiKeyAuthMiddleware\<close>: the result is the lines written to the console and the
  argument of \<^verbatim>\<open>next\<close> (\<open>None\<close> for a plain \<^verbatim>\<open>next()\<close>).
\<close>

definition apiKeyAuthMiddleware :: "string \<Rightarrow> Request \<Rightarrow> string list \<times> app_error option" where
  "apiKeyAuthMiddleware API_KEY req =
     (if httpMethod req = ''POST'' then
        (let providedApiKey = headers req ''x-api-key'' in
         if API_KEY = [] then
           ([''WARNING: API_KEY is not configured. POST requests are unprotected.''], None)
         else if \<not> truthy providedApiKey \<or> providedApiKey \<noteq> Some API_KEY then
           ([], Some UnauthorizedError)
         else ([], None))
      else ([], None))"

section \<open>Numbers in parameters\<close>

definition digitVal :: "char \<Rightarrow> nat" where
  "digitVal c = (of_char c :: nat) - 48"

definition digitsValue :: "string \<Rightarrow> nat" where
  "digitsValue s = foldl (\<lambda>acc c. acc * 10 + digitVal c) 0 s"

text \<open>
  The strings the validator's \<^verbatim>\<open>isInt\<close> accepts, an optional sign and one or more
  digits, with the number they denote.
\<close>

fun signedDecimal :: "string \<Rightarrow> int option" where
  "signedDecimal [] = None"
| "signedDecimal (c # cs) =
     (if c = CHR ''-'' \<or> c = CHR ''+'' then
        (if cs \<noteq> [] \<and> list_all isDigit cs
         then Some ((if c = CHR ''-'' then - 1 else 1) * int (digitsValue cs)) else None)
      else if list_all isDigit (c # cs) then Some (int (digitsValue (c # cs))) else None)"

text \<open>\<^verbatim>\<open>isInt({ min, max })\<close>: the bounds are compared with the number the string denotes.\<close>

definition isInt :: "int option \<Rightarrow> int option \<Rightarrow> string \<Rightarrow> bool" where
  "isInt mn mx s =
     (case signedDecimal s of
        None \<Rightarrow> False
      | Some n \<Rightarrow> (case mn of None \<Rightarrow> True | Some m \<Rightarrow> m \<le> n) \<and>
                  (case mx of None \<Rightarrow> True | Some m \<Rightarrow> n \<le> m))"

text \<open>
  \<^verbatim>\<open>parseInt(s, 10)\<close>: leading whitespace is skipped, a sign is read, then the longest
  run of digits; \<open>None\<close> is \<^verbatim>\<open>NaN\<close>. Numbers are mathematical integers (JavaScript's are
  exact below \<open>2^53\<close>).
\<close>

definition parseInt :: "string \<Rightarrow> int option" where
  "parseInt s =
     (let t = dropWhile isWhitespace s;
          neg = (t \<noteq> [] \<and> hd t = CHR ''-'');
          r = (if t \<noteq> [] \<and> (hd t = CHR ''-'' \<or> hd t = CHR ''+'') then tl t else t);
          ds = takeWhile isDigit r
      in if ds = [] then None
         else Some ((if neg then - 1 else 1) * int (digitsValue ds)))"

section \<open>Request validation\<close>

text \<open>
  A validation chain of express-validator is a list of steps run from left to right on the
  field's value. \<open>Optional\<close> ends the chain when the field is absent. A sanitizer
  (\<open>Trim\<close>) replaces the value, which is written back to the request. Every validator
  that fails adds its message; one without \<^verbatim>\<open>withMessage\<close> adds \<^verbatim>\<open>Invalid value\<close>.
  A custom validator gives the message of the error it throws.
\<close>

datatype step =
    Optional
  | Trim
  | NotEmpty string
  | IsLength nat "nat option" string
  | IsInt "int option" "int option" string
  | Custom "string \<Rightarrow> string option"

text \<open>The validator's string view of a value: \<^verbatim>\<open>undefined\<close> is the empty string.\<close>

fun toStr :: "string option \<Rightarrow> string" where
  "toStr None = []"
| "toStr (Some s) = s"

fun runChain :: "step list \<Rightarrow> string option \<Rightarrow> string list \<times> string option" where
  "runChain [] v = ([], v)"
| "runChain (Optional # ss) v = (if v = None then ([], v) else runChain ss v)"
| "runChain (Trim # ss) v = runChain ss (Some (trim (toStr v)))"
| "runChain (NotEmpty msg # ss) v =
     (let (es, v') = runChain ss v in ((if toStr v = [] then [msg] else []) @ es, v'))"
| "runChain (IsLength mn mx msg # ss) v =
     (let (es, v') = runChain ss v;
          n = length (toStr v);
          ok = (mn \<le> n \<and> (case mx of None \<Rightarrow> True | Some m \<Rightarrow> n \<le> m))
      in ((if ok then [] else [msg]) @ es, v'))"
| "runChain (IsInt mn mx msg # ss) v =
     (let (es, v') = runChain ss v in ((if isInt mn mx (toStr v) then [] else [msg]) @ es, v'))"
| "runChain (Custom f # ss) v =
     (let (es, v') = runChain ss v
      in ((case f (toStr v) of None \<Rightarrow> [] | Some msg \<Rightarrow> [msg]) @ es, v'))"

text \<open>
  Running the chains of a route over an object: the failed checks, as pairs of field and
  message, and the object with the sanitized values.
\<close>

fun runValidation :: "(string \<times> step list) list \<Rightarrow> fields \<Rightarrow> (string \<times> string) list \<times> fields" where
  "runValidation [] obj = ([], obj)"
| "runValidation ((field, steps) # cs) obj =
     (let (msgs, v) = runChain steps (obj field);
          (es, obj') = runValidation cs (obj(field := v))
      in (map (\<lambda>m. (field, m)) msgs @ es, obj'))"

section \<open>The URL pattern\<close>

text \<open>
  Regular expressions over characters, with character classes as predicates, and matching
  by derivatives. The pattern of the source is anchored at both ends and has neither
  back-references nor look-around, so \<^verbatim>\<open>regex.test(s)\<close> is membership of the whole
  string in the pattern's language.
\<close>

datatype regex =
    Never
  | Empty
  | Class "char \<Rightarrow> bool"
  | Cat regex regex
  | Or regex regex
  | Star regex

fun nullable :: "regex \<Rightarrow> bool" where
  "nullable Never = False"
| "nullable Empty = True"
| "nullable (Class p) = False"
| "nullable (Cat r s) = (nullable r \<and> nullable s)"
| "nullable (Or r s) = (nullable r \<or> nullable s)"
| "nullable (Star r) = True"

fun deriv :: "char \<Rightarrow> regex \<Rightarrow> regex" where
  "deriv c Never = Never"
| "deriv c Empty = Never"
| "deriv c (Class p) = (if p c then Empty else Never)"
| "deriv c (Cat r s) =
     (if nullable r then Or (Cat (deriv c r) s) (deriv c s) else Cat (deriv c r) s)"
| "deriv c (Or r s) = Or (deriv c r) (deriv c s)"
| "deriv c (Star r) = Cat (deriv c r) (Star r)"

definition regexTest :: "regex \<Rightarrow> string \<Rightarrow> bool" where
  "regexTest r s = nullable (fold deriv s r)"

text \<open>The language of a pattern, to state what the matcher decides.\<close>

inductive matches :: "regex \<Rightarrow> string \<Rightarrow> bool" where
  m_empty: "matches Empty []"
| m_class: "p c \<Longrightarrow> matches (Class p) [c]"
| m_cat: "matches r u \<Longrightarrow> matches s v \<Longrightarrow> matches (Cat r s) (u @ v)"
| m_or1: "matches r u \<Longrightarrow> matches (Or r s) u"
| m_or2: "matches s u \<Longrightarrow> matches (Or r s) u"
| m_star0: "matches (Star r) []"
| m_star: "matches r u \<Longrightarrow> matches (Star r) v \<Longrightarrow> matches (Star r) (u @ v)"

text \<open>Pattern syntax: \<^verbatim>\<open>r?\<close>, \<^verbatim>\<open>r+\<close>, \<^verbatim>\<open>r{m,n}\<close>, a literal under the \<^verbatim>\<open>i\<close> flag.\<close>

definition ropt :: "regex \<Rightarrow> regex" where
  "ropt r = Or r Empty"

definition rplus :: "regex \<Rightarrow> regex" where
  "rplus r = Cat r (Star r)"

fun rtimes :: "nat \<Rightarrow> regex \<Rightarrow> regex" where
  "rtimes 0 r = Empty"
| "rtimes (Suc n) r = Cat r (rtimes n r)"

fun rupto :: "nat \<Rightarrow> regex \<Rightarrow> regex" where
  "rupto 0 r = Empty"
| "rupto (Suc n) r = ropt (Cat r (rupto n r))"

definition rbetween :: "nat \<Rightarrow> nat \<Rightarrow> regex \<Rightarrow> regex" where
  "rbetween m n r = Cat (rtimes m r) (rupto (n - m) r)"

definition ichar :: "char \<Rightarrow> regex" where
  "ichar c = Class (\<lambda>x. toLowerChar x = toLowerChar c)"

fun istring :: "string \<Rightarrow> regex" where
  "istring [] = Empty"
| "istring (c # cs) = Cat (ichar c) (istring cs)"

definition isLetter :: "char \<Rightarrow> bool" where
  "isLetter c = (isUpper c \<or> isLower c)"

text \<open>\<^verbatim>\<open>[\da-z.-]\<close>, \<^verbatim>\<open>[a-z.]\<close> and \<^verbatim>\<open>[/\w .-]\<close> under the \<^verbatim>\<open>i\<close> flag.\<close>

definition hostChar :: "char \<Rightarrow> bool" where
  "hostChar c = (isDigit c \<or> isLetter c \<or> c = CHR ''.'' \<or> c = CHR ''-'')"

definition tldChar :: "char \<Rightarrow> bool" where
  "tldChar c = (isLetter c \<or> c = CHR ''.'')"

definition pathChar :: "char \<Rightarrow> bool" where
  "pathChar c =
     (c = CHR ''/'' \<or> isLetter c \<or> isDigit c \<or> c = CHR ''_'' \<or> c = CHR '' '' \<or>
      c = CHR ''.'' \<or> c = CHR ''-'')"

text \<open>\<^verbatim>\<open>/^(https?:\/\/)?([\da-z.-]+)\.([a-z.]{2,6})([/\w .-]*)*\/?$/i\<close>\<close>

definition urlRegex :: regex where
  "urlRegex =
     Cat (ropt (Cat (istring ''http'') (Cat (ropt (ichar CHR ''s'')) (istring ''://''))))
    (Cat (rplus (Class hostChar))
    (Cat (ichar CHR ''.'')
    (Cat (rbetween 2 6 (Class tldChar))
    (Cat (Star (Star (Class pathChar)))
         (ropt (ichar CHR ''/''))))))"

text \<open>\<^verbatim>\<open>isValidUrl\<close> of the import script.\<close>

definition isValidUrl :: "string \<Rightarrow> bool" where
  "isValidUrl u = regexTest urlRegex u"

section \<open>Validation rules of the routes\<close>

definition urlCustom :: "string \<Rightarrow> string option" where
  "urlCustom v =
     (if v \<noteq> [] \<and> length v > 0 \<and> \<not> regexTest urlRegex v then Some ''Invalid URL format''
      else None)"

definition createUseCaseValidation :: "(string \<times> step list) list" where
  "createUseCaseValidation =
     [(''useCase'',
         [Trim, NotEmpty ''Use case name is required'',
          IsLength 3 (Some 500) ''Use case must be between 3 and 500 characters'']),
      (''conceptDescription'',
         [Trim, NotEmpty ''Concept description is required'',
          IsLength 10 (Some 10000)
            ''Concept description must be between 10 and 10000 characters'']),
      (''concreteImplementation'',
         [Optional, Trim,
          IsLength 0 (Some 10000) ''Concrete implementation must not exceed 10000 characters'']),
      (''benefit'',
         [Optional, Trim, IsLength 0 (Some 5000) ''Benefit must not exceed 5000 characters'']),
      (''industry'',
         [Optional, Trim, IsLength 0 (Some 200) ''Industry must not exceed 200 characters'']),
      (''department'',
         [Optional, Trim, IsLength 0 (Some 200) ''Department must not exceed 200 characters'']),
      (''valueChainStep'',
         [Optional, Trim,
          IsLength 0 (Some 200) ''Value chain step must not exceed 200 characters'']),
      (''url'', [Optional, Trim, Custom urlCustom])]"

definition paginationValidation :: "(string \<times> step list) list" where
  "paginationValidation =
     [(''page'', [Optional, IsInt (Some 1) None ''Page must be a positive integer'']),
      (''limit'', [Optional, IsInt (Some 1) (Some 100) ''Limit must be between 1 and 100'']),
      (''industry'', [Optional, Trim, IsLength 0 (Some 200) ''Invalid value'']),
      (''valueChainStep'', [Optional, Trim, IsLength 0 (Some 200) ''Invalid value'']),
      (''department'', [Optional, Trim, IsLength 0 (Some 200) ''Invalid value'']),
      (''search'', [Optional, Trim, IsLength 0 (Some 500) ''Invalid value''])]"

definition idParamValidation :: "(string \<times> step list) list" where
  "idParamValidation =
     [(''id'', [IsInt (Some 1) None ''ID must be a positive integer''])]"

text \<open>
  \<^verbatim>\<open>handleValidationErrors\<close> after the chains of a route: the error passed to
  \<^verbatim>\<open>next\<close>, or the sanitized object.
\<close>

definition handleValidationErrors ::
  "(string \<times> step list) list \<Rightarrow> fields \<Rightarrow> app_error + fields" where
  "handleValidationErrors rules obj =
     (let (errors, obj') = runValidation rules obj
      in if errors \<noteq> [] then Inl (ValidationAppError errors) else Inr obj')"

section \<open>Case-insensitive comparison in the database\<close>

text \<open>
  The ORM is a library and the database a server, neither part of the repository. A
  condition with \<^verbatim>\<open>mode: 'insensitive'\<close> reaches the database as an \<^verbatim>\<open>ILIKE\<close> comparison
  of the column with the value as it was passed: in the value \<^verbatim>\<open>%\<close> stands for any run of
  characters, \<^verbatim>\<open>_\<close> for any one character, and a backslash makes the character after it
  literal; letters are compared in lower case. A value that ends in a backslash which
  escapes nothing makes the database raise an error when the comparison reaches it; the
  operations of this model never fail, and such a value matches nothing here.
\<close>

datatype like_token = AnyString | AnyChar | Literal char | DanglingEscape

fun likeTokens :: "string \<Rightarrow> like_token list" where
  "likeTokens [] = []"
| "likeTokens (c # cs) =
     (if c = CHR 0x5C then
        (case cs of [] \<Rightarrow> [DanglingEscape] | d # ds \<Rightarrow> Literal d # likeTokens ds)
      else if c = CHR ''%'' then AnyString # likeTokens cs
      else if c = CHR ''_'' then AnyChar # likeTokens cs
      else Literal c # likeTokens cs)"

fun likeMatch :: "like_token list \<Rightarrow> string \<Rightarrow> bool" where
  "likeMatch [] t = (t = [])"
| "likeMatch (Literal c # ts) [] = False"
| "likeMatch (Literal c # ts) (x # xs) = (x = c \<and> likeMatch ts xs)"
| "likeMatch (AnyChar # ts) [] = False"
| "likeMatch (AnyChar # ts) (x # xs) = likeMatch ts xs"
| "likeMatch (AnyString # ts) [] = likeMatch ts []"
| "likeMatch (AnyString # ts) (x # xs) = (likeMatch ts (x # xs) \<or> likeMatch (AnyString # ts) xs)"
| "likeMatch (DanglingEscape # ts) t = False"

text \<open>\<^verbatim>\<open>v ILIKE p\<close>.\<close>

definition ilike :: "string \<Rightarrow> string \<Rightarrow> bool" where
  "ilike v p = likeMatch (likeTokens (toLowerCase p)) (toLowerCase v)"

text \<open>A value the database can compare without raising: no backslash is left dangling.\<close>

definition completePattern :: "string \<Rightarrow> bool" where
  "completePattern p = (DanglingEscape \<notin> set (likeTokens (toLowerCase p)))"

text \<open>A value without any of the three special characters.\<close>

definition plainChar :: "char \<Rightarrow> bool" where
  "plainChar c = (c \<noteq> CHR 0x5C \<and> c \<noteq> CHR ''%'' \<and> c \<noteq> CHR ''_'')"

definition plainText :: "string \<Rightarrow> bool" where
  "plainText p = list_all plainChar p"

definition noBackslash :: "string \<Rightarrow> bool" where
  "noBackslash p = list_all (\<lambda>c. c \<noteq> CHR 0x5C) p"

section \<open>The store\<close>

text \<open>
  The table behind the ORM: the rows in insertion order and the next value of the id
  sequence, which starts at 1. The ORM is a library, not part of the repository; its
  operations are modelled as the handlers use them. A case-insensitive filter is the
  comparison above, \<^verbatim>\<open>contains\<close> putting \<^verbatim>\<open>%\<close> on both sides of the value, and no
  filter matches a \<^verbatim>\<open>null\<close> column. The operations never fail.
\<close>

record Store =
  rows :: "UseCase list"
  nextId :: nat

definition emptyStore :: Store where
  "emptyStore = \<lparr>rows = [], nextId = 1\<rparr>"

datatype column =
    ColUseCase | ColConceptDescription | ColBenefit | ColIndustry | ColValueChainStep
  | ColDepartment

fun columnOf :: "column \<Rightarrow> UseCase \<Rightarrow> string option" where
  "columnOf ColUseCase r = Some (useCase r)"
| "columnOf ColConceptDescription r = Some (conceptDescription r)"
| "columnOf ColBenefit r = benefit r"
| "columnOf ColIndustry r = industry r"
| "columnOf ColValueChainStep r = valueChainStep r"
| "columnOf ColDepartment r = department r"

text \<open>\<^verbatim>\<open>{ equals: x, mode: 'insensitive' }\<close> and \<^verbatim>\<open>{ contains: x, mode: 'insensitive' }\<close>.\<close>

datatype string_filter = EqualsInsensitive string | ContainsInsensitive string

fun stringFilter :: "string_filter \<Rightarrow> string option \<Rightarrow> bool" where
  "stringFilter f None = False"
| "stringFilter (EqualsInsensitive x) (Some v) = ilike v x"
| "stringFilter (ContainsInsensitive x) (Some v) = ilike v (''%'' @ x @ ''%'')"

text \<open>
  A \<^verbatim>\<open>where\<close> object: the conditions set on columns, which must all hold, and the
  optional \<^verbatim>\<open>OR\<close> list, of which one must hold.
\<close>

record UseCaseWhereInput =
  w_columns :: "(column \<times> string_filter) list"
  w_OR :: "(column \<times> string_filter) list option"

definition condHolds :: "UseCase \<Rightarrow> column \<times> string_filter \<Rightarrow> bool" where
  "condHolds r cf = stringFilter (snd cf) (columnOf (fst cf) r)"

definition rowMatches :: "UseCaseWhereInput \<Rightarrow> UseCase \<Rightarrow> bool" where
  "rowMatches w r =
     (list_all (condHolds r) (w_columns w) \<and>
      (case w_OR w of None \<Rightarrow> True | Some cs \<Rightarrow> list_ex (condHolds r) cs))"

text \<open>\<^verbatim>\<open>orderBy: { createdAt: 'desc' }\<close>; rows with equal times keep their order.\<close>

definition orderByCreatedAtDesc :: "UseCase list \<Rightarrow> UseCase list" where
  "orderByCreatedAtDesc rs = sort_key (\<lambda>r. - int (createdAt r)) rs"

definition findMany :: "UseCaseWhereInput \<Rightarrow> nat \<Rightarrow> nat \<Rightarrow> Store \<Rightarrow> UseCase list" where
  "findMany w skp tk st =
     take tk (drop skp (orderByCreatedAtDesc (filter (rowMatches w) (rows st))))"

definition count :: "UseCaseWhereInput \<Rightarrow> Store \<Rightarrow> nat" where
  "count w st = length (filter (rowMatches w) (rows st))"

definition findFirst :: "UseCaseWhereInput \<Rightarrow> Store \<Rightarrow> UseCase option" where
  "findFirst w st = find (rowMatches w) (rows st)"

definition findUnique :: "int \<Rightarrow> Store \<Rightarrow> UseCase option" where
  "findUnique i st = find (\<lambda>r. int (rowId r) = i) (rows st)"

text \<open>\<^verbatim>\<open>create\<close>: the store generates the id and sets both timestamps to the current time.\<close>

definition create :: "nat \<Rightarrow> UseCaseCreateInput \<Rightarrow> Store \<Rightarrow> UseCase \<times> Store" where
  "create now d st =
     (let r = \<lparr>useCase = useCase d, conceptDescription = conceptDescription d,
               concreteImplementation = concreteImplementation d, benefit = benefit d,
               industry = industry d, department = department d,
               valueChainStep = valueChainStep d, url = url d,
               rowId = nextId st, createdAt = now, updatedAt = now\<rparr>
      in (r, st\<lparr>rows := rows st @ [r], nextId := Suc (nextId st)\<rparr>))"

text \<open>The distinct non-null values of a column, ascending.\<close>

definition distinctValues :: "(UseCase \<Rightarrow> string option) \<Rightarrow> Store \<Rightarrow> string list" where
  "distinctValues col st = sort (remdups (List.map_filter col (rows st)))"

section \<open>The route handlers\<close>

text \<open>
  \<^verbatim>\<open>if (x) { where.c = { equals: x, mode: 'insensitive' } }\<close> for a value that is a string
  or \<^verbatim>\<open>null\<close>.
\<close>

definition equalsIfSet :: "column \<Rightarrow> string option \<Rightarrow> (column \<times> string_filter) list" where
  "equalsIfSet c v = (if truthy v then [(c, EqualsInsensitive (toStr v))] else [])"

definition buildWhere ::
  "string option \<Rightarrow> string option \<Rightarrow> string option \<Rightarrow> string option \<Rightarrow> UseCaseWhereInput" where
  "buildWhere industryQ valueChainStepQ departmentQ searchQ =
     \<lparr>w_columns =
        equalsIfSet ColIndustry industryQ @ equalsIfSet ColValueChainStep valueChainStepQ @
        equalsIfSet ColDepartment departmentQ,
      w_OR =
        (if truthy searchQ then
           Some [(ColUseCase, ContainsInsensitive (toStr searchQ)),
                 (ColConceptDescription, ContainsInsensitive (toStr searchQ)),
                 (ColBenefit, ContainsInsensitive (toStr searchQ))]
         else None)\<rparr>"

text \<open>\<^verbatim>\<open>x ?? d\<close> for a query parameter.\<close>

fun orDefault :: "string option \<Rightarrow> string \<Rightarrow> string" where
  "orDefault None d = d"
| "orDefault (Some v) d = v"

text \<open>
  The handler of \<^verbatim>\<open>GET /api/use-cases\<close>, run on the sanitized query. Validation has
  established that \<open>page\<close> and \<open>limit\<close> are integers from 1; outside that the store
  rejects the window, and the handler passes the failure to the error handler.
\<close>

definition listUseCases :: "fields \<Rightarrow> Store \<Rightarrow> response" where
  "listUseCases q st =
     (case (parseInt (orDefault (q ''page'') ''1''), parseInt (orDefault (q ''limit'') ''20'')) of
        (Some pageN, Some limitN) \<Rightarrow>
          if pageN < 1 \<or> limitN < 1 then errorHandler (UnknownError ''Invalid skip or take'')
          else
            (let skipN = (pageN - 1) * limitN;
                 industryQ = map_option trim (q ''industry'');
                 valueChainStepQ = map_option trim (q ''valueChainStep'');
                 departmentQ = map_option trim (q ''department'');
                 searchQ = map_option trim (q ''search'');
                 wh = buildWhere industryQ valueChainStepQ departmentQ searchQ;
                 useCases = findMany wh (nat skipN) (nat limitN) st;
                 totalN = int (count wh st);
                 totalPagesN = \<lceil>real_of_int totalN / real_of_int limitN\<rceil>
             in (200,
                 ListBody
                   \<lparr>data = useCases,
                    pagination =
                      \<lparr>page = pageN, limit = limitN, total = totalN, totalPages = totalPagesN,
                       hasNext = (pageN < totalPagesN), hasPrev = (pageN > 1)\<rparr>,
                    filters =
                      \<lparr>f_industry = industryQ, f_valueChainStep = valueChainStepQ,
                       f_department = departmentQ, f_search = searchQ\<rparr>\<rparr>))
      | _ \<Rightarrow> errorHandler (UnknownError ''Invalid skip or take''))"

text \<open>The handler of \<^verbatim>\<open>GET /api/use-cases/filters\<close>.\<close>

definition listFilters :: "Store \<Rightarrow> response" where
  "listFilters st =
     (200,
      FiltersBody (filter (\<lambda>v. v \<noteq> []) (distinctValues industry st))
        (filter (\<lambda>v. v \<noteq> []) (distinctValues valueChainStep st))
        (filter (\<lambda>v. v \<noteq> []) (distinctValues department st)))"

text \<open>The handler of \<^verbatim>\<open>GET /api/use-cases/:id\<close>.\<close>

definition getUseCase :: "string \<Rightarrow> Store \<Rightarrow> response" where
  "getUseCase idParam st =
     (case parseInt idParam of
        None \<Rightarrow> errorHandler (UnknownError ''Invalid id'')
      | Some i \<Rightarrow>
          (case findUnique i st of
             None \<Rightarrow> errorHandler (NotFoundError ''UseCase'' i)
           | Some r \<Rightarrow> (200, DataBody r)))"

text \<open>
  The handler of \<^verbatim>\<open>POST /api/use-cases\<close>, run on the sanitized body at time \<open>now\<close>.
  Calling \<^verbatim>\<open>trim\<close> on an absent required field throws, which validation excludes.
\<close>

definition createUseCase :: "nat \<Rightarrow> fields \<Rightarrow> Store \<Rightarrow> response \<times> Store" where
  "createUseCase now b st =
     (case b ''useCase'' of
        None \<Rightarrow> (errorHandler (UnknownError ''Cannot read properties of undefined''), st)
      | Some useCaseB \<Rightarrow>
          (case findFirst
                  \<lparr>w_columns = [(ColUseCase, EqualsInsensitive (trim useCaseB))], w_OR = None\<rparr> st of
             Some existing \<Rightarrow>
               (errorHandler (AppError ''A use case with this name already exists'' 409), st)
           | None \<Rightarrow>
               (case b ''conceptDescription'' of
                  None \<Rightarrow>
                    (errorHandler (UnknownError ''Cannot read properties of undefined''), st)
                | Some conceptDescriptionB \<Rightarrow>
                    (let (newUseCase, st') =
                           create now
                             \<lparr>useCase = trim useCaseB,
                              conceptDescription = trim conceptDescriptionB,
                              concreteImplementation =
                                map_option trim (b ''concreteImplementation''),
                              benefit = map_option trim (b ''benefit''),
                              industry = map_option trim (b ''industry''),
                              department = map_option trim (b ''department''),
                              valueChainStep = map_option trim (b ''valueChainStep''),
                              url = map_option trim (b ''url'')\<rparr> st
                     in ((201, CreatedBody ''Use case created successfully'' newUseCase),
                         st')))))"

section \<open>The application\<close>

text \<open>
  The middleware stack in its order of registration: the health route, the API key check
  mounted on \<^verbatim>\<open>/api\<close>, the four API routes (each with its validation), the handler for
  unknown routes, and the error handler. The result is the response and the store after
  the request; \<open>now\<close> is the time of the request.
\<close>

definition routes :: "nat \<Rightarrow> Request \<Rightarrow> Store \<Rightarrow> response \<times> Store" where
  "routes now req st =
     (if httpMethod req = ''GET'' \<and> path req = [''api'', ''use-cases''] then
        (case handleValidationErrors paginationValidation (query req) of
           Inl e \<Rightarrow> (errorHandler e, st)
         | Inr q \<Rightarrow> (listUseCases q st, st))
      else if httpMethod req = ''GET'' \<and> path req = [''api'', ''use-cases'', ''filters''] then
        (listFilters st, st)
      else if httpMethod req = ''GET'' \<and> length (path req) = 3 \<and>
              take 2 (path req) = [''api'', ''use-cases''] then
        (case handleValidationErrors idParamValidation [''id'' \<mapsto> path req ! 2] of
           Inl e \<Rightarrow> (errorHandler e, st)
         | Inr ps \<Rightarrow> (getUseCase (toStr (ps ''id'')) st, st))
      else if httpMethod req = ''POST'' \<and> path req = [''api'', ''use-cases''] then
        (case handleValidationErrors createUseCaseValidation (body req) of
           Inl e \<Rightarrow> (errorHandler e, st)
         | Inr b \<Rightarrow> createUseCase now b st)
      else (errorHandler (AppError ''Route not found'' 404), st))"

definition app :: "string \<Rightarrow> nat \<Rightarrow> Request \<Rightarrow> Store \<Rightarrow> response \<times> Store" where
  "app API_KEY now req st =
     (if httpMethod req = ''GET'' \<and> path req = [''health''] then ((200, HealthBody ''healthy''), st)
      else
        (case (if take 1 (path req) = [''api''] then snd (apiKeyAuthMiddleware API_KEY req)
               else None) of
           Some e \<Rightarrow> (errorHandler e, st)
         | None \<Rightarrow> routes now req st))"

section \<open>The CSV import script\<close>

record ImportStats =
  totalRows :: nat
  inserted :: nat
  skipped :: nat
  duplicates :: nat
  errors :: nat
  errorDetails :: "(nat \<times> string) list"

definition normalizeValue :: "string option \<Rightarrow> string option" where
  "normalizeValue v =
     (case v of
        None \<Rightarrow> None
      | Some s \<Rightarrow> (let trimmed = trim s in if length trimmed > 0 then Some trimmed else None))"

text \<open>
  The state of the import loop: the statistics, the warnings written for URLs that do not
  match the pattern (row number and URL), and the store.
\<close>

type_synonym import_state = "ImportStats \<times> (nat \<times> string) list \<times> Store"

text \<open>
  The body of the loop for the record at index \<open>i\<close>, processed at time \<open>now\<close>. The
  store of the model never fails, so the \<^verbatim>\<open>catch\<close> branch that counts errors is not
  taken.
\<close>

definition processRow :: "nat \<Rightarrow> nat \<Rightarrow> fields \<Rightarrow> import_state \<Rightarrow> import_state" where
  \<open>processRow now i row acc =
     (let (stats, warnings, st) = acc;
          rowNumber = i + 2;
          useCaseN = normalizeValue (row ''Use Case'');
          conceptDescriptionN = normalizeValue (row ''Concept description'')
      in if \<not> truthy useCaseN then
           (stats\<lparr>skipped := skipped stats + 1,
                  errorDetails := errorDetails stats @ [(rowNumber, ''Empty "Use Case" field'')]\<rparr>,
            warnings, st)
         else if \<not> truthy conceptDescriptionN then
           (stats\<lparr>skipped := skipped stats + 1,
                  errorDetails :=
                    errorDetails stats @ [(rowNumber, ''Empty "Concept description" field'')]\<rparr>,
            warnings, st)
         else
           (case findFirst
                   \<lparr>w_columns = [(ColUseCase, EqualsInsensitive (toStr useCaseN))],
                    w_OR = None\<rparr> st of
              Some existing \<Rightarrow> (stats\<lparr>duplicates := duplicates stats + 1\<rparr>, warnings, st)
            | None \<Rightarrow>
                (let urlN = normalizeValue (row ''URL'');
                     warnings' =
                       (if truthy urlN \<and> \<not> isValidUrl (toStr urlN)
                        then warnings @ [(rowNumber, toStr urlN)] else warnings);
                     (r, st') =
                       create now
                         \<lparr>useCase = toStr useCaseN,
                          conceptDescription = toStr conceptDescriptionN,
                          concreteImplementation =
                            normalizeValue (row ''Concrete implementation''),
                          benefit = normalizeValue (row ''Benefit''),
                          industry = normalizeValue (row ''Industry''),
                          department = normalizeValue (row ''Department''),
                          valueChainStep = normalizeValue (row ''Value Chain Step''),
                          url = urlN\<rparr> st
                 in (stats\<lparr>inserted := inserted stats + 1\<rparr>, warnings', st'))))\<close>

text \<open>The loop over the records; \<open>clock i\<close> is the time at which record \<open>i\<close> is processed.\<close>

fun importRows :: "(nat \<Rightarrow> nat) \<Rightarrow> nat \<Rightarrow> fields list \<Rightarrow> import_state \<Rightarrow> import_state" where
  "importRows clock i [] acc = acc"
| "importRows clock i (row # records) acc =
     importRows clock (Suc i) records (processRow (clock i) i row acc)"

text \<open>\<^verbatim>\<open>importUseCases\<close> on the records the CSV parser delivers.\<close>

definition initialStats :: "nat \<Rightarrow> ImportStats" where
  "initialStats n =
     \<lparr>totalRows = n, inserted = 0, skipped = 0, duplicates = 0, errors = 0, errorDetails = []\<rparr>"

definition importUseCases :: "(nat \<Rightarrow> nat) \<Rightarrow> fields list \<Rightarrow> Store \<Rightarrow> import_state" where
  "importUseCases clock records st =
     importRows clock 0 records (initialStats (length records), [], st)"

section \<open>The rows a query selects\<close>

text \<open>
  The \<^verbatim>\<open>where\<close> object the list handler builds from a query, and the rows of the table
  that satisfy it.
\<close>

definition queryWhere :: "fields \<Rightarrow> UseCaseWhereInput" where
  "queryWhere q =
     buildWhere (map_option trim (q ''industry'')) (map_option trim (q ''valueChainStep''))
       (map_option trim (q ''department'')) (map_option trim (q ''search''))"

definition matchingRows :: "fields \<Rightarrow> Store \<Rightarrow> UseCase list" where
  "matchingRows q st = filter (rowMatches (queryWhere q)) (rows st)"

text \<open>
  The filter as the specification words it, with the parameters trimmed. A column that is
  \<^verbatim>\<open>null\<close> equals nothing and contains nothing.
\<close>

definition equalsField :: "string \<Rightarrow> string option \<Rightarrow> bool" where
  "equalsField x field =
     (case field of None \<Rightarrow> False | Some v \<Rightarrow> toLowerCase v = toLowerCase x)"

definition occursIn :: "string \<Rightarrow> string option \<Rightarrow> bool" where
  "occursIn x field =
     (case field of None \<Rightarrow> False | Some v \<Rightarrow> includesStr (toLowerCase v) (toLowerCase x))"

definition occursInRow :: "string \<Rightarrow> UseCase \<Rightarrow> bool" where
  "occursInRow x r =
     (occursIn x (Some (useCase r)) \<or> occursIn x (Some (conceptDescription r)) \<or>
      occursIn x (benefit r))"

text \<open>Every supplied parameter filters.\<close>

definition selectsAsStated :: "fields \<Rightarrow> UseCase \<Rightarrow> bool" where
  "selectsAsStated q r =
     ((case q ''industry'' of None \<Rightarrow> True | Some x \<Rightarrow> equalsField (trim x) (industry r)) \<and>
      (case q ''valueChainStep'' of None \<Rightarrow> True
       | Some x \<Rightarrow> equalsField (trim x) (valueChainStep r)) \<and>
      (case q ''department'' of None \<Rightarrow> True | Some x \<Rightarrow> equalsField (trim x) (department r)) \<and>
      (case q ''search'' of None \<Rightarrow> True | Some x \<Rightarrow> occursInRow (trim x) r))"

text \<open>A parameter that is absent, or empty after trimming, does not filter.\<close>

definition paramEquals :: "string option \<Rightarrow> string option \<Rightarrow> bool" where
  "paramEquals p field =
     (case p of None \<Rightarrow> True | Some x \<Rightarrow> trim x = [] \<or> equalsField (trim x) field)"

definition paramOccurs :: "string option \<Rightarrow> UseCase \<Rightarrow> bool" where
  "paramOccurs p r =
     (case p of None \<Rightarrow> True | Some x \<Rightarrow> trim x = [] \<or> occursInRow (trim x) r)"

definition selects :: "fields \<Rightarrow> UseCase \<Rightarrow> bool" where
  "selects q r =
     (paramEquals (q ''industry'') (industry r) \<and>
      paramEquals (q ''valueChainStep'') (valueChainStep r) \<and>
      paramEquals (q ''department'') (department r) \<and>
      paramOccurs (q ''search'') r)"

section \<open>Records of a file\<close>

text \<open>
  A record the import script does not skip: both required fields are present after
  normalization. Its normalized name is the value of the existence check.
\<close>

definition validRecord :: "fields \<Rightarrow> bool" where
  "validRecord row =
     (truthy (normalizeValue (row ''Use Case'')) \<and>
      truthy (normalizeValue (row ''Concept description'')))"

definition recordKey :: "fields \<Rightarrow> string" where
  "recordKey row = toStr (normalizeValue (row ''Use Case''))"

text \<open>The existence check both write paths run: some stored name matches the value.\<close>

definition nameTaken :: "Store \<Rightarrow> string \<Rightarrow> bool" where
  "nameTaken st n = list_ex (\<lambda>r. ilike (useCase r) n) (rows st)"

section \<open>Histories of the store\<close>

text \<open>
  The operations that write to the store: a request to the application, served at a given
  time with a given configured key, and a run of the import script over the records of a
  file. They run one after the other, from the empty table.
\<close>

datatype operation =
    Serve string nat Request
  | RunImport "nat \<Rightarrow> nat" "fields list"

fun perform :: "Store \<Rightarrow> operation \<Rightarrow> Store" where
  "perform st (Serve API_KEY now req) = snd (app API_KEY now req st)"
| "perform st (RunImport clock records) = snd (snd (importUseCases clock records st))"

definition performAll :: "operation list \<Rightarrow> Store" where
  "performAll ops = foldl perform emptyStore ops"

text \<open>The ids in the table are below the next value of the sequence, which starts at 1.\<close>

definition idsGenerated :: "Store \<Rightarrow> bool" where
  "idsGenerated st = (0 < nextId st \<and> list_all (\<lambda>r. rowId r < nextId st) (rows st))"

text \<open>The invariants of the data model.\<close>

definition requiredPresent :: "UseCase \<Rightarrow> bool" where
  "requiredPresent r = (trim (useCase r) \<noteq> [] \<and> trim (conceptDescription r) \<noteq> [])"

definition namesDistinct :: "Store \<Rightarrow> bool" where
  "namesDistinct st = distinct (map (\<lambda>r. toLowerCase (useCase r)) (rows st))"

text \<open>An operation that writes no name with a backslash.\<close>

fun plainNames :: "operation \<Rightarrow> bool" where
  "plainNames (Serve API_KEY now req) = noBackslash (trim (toStr (body req ''useCase'')))"
| "plainNames (RunImport clock records) =
     list_all (\<lambda>row. validRecord row \<longrightarrow> noBackslash (recordKey row)) records"

definition storeInvariant :: "Store \<Rightarrow> bool" where
  "storeInvariant st = (idsGenerated st \<and> list_all requiredPresent (rows st))"

section \<open>Sample requests and records\<close>

definition sampleBody :: fields where
  "sampleBody =
     [''useCase'' \<mapsto> ''Predictive Maintenance'',
      ''conceptDescription'' \<mapsto> ''Use ML to predict failures'']"

definition samplePost :: Request where
  "samplePost =
     \<lparr>httpMethod = ''POST'', path = [''api'', ''use-cases''],
      headers = [''x-api-key'' \<mapsto> ''demo-api-key''], query = Map.empty, body = sampleBody\<rparr>"

definition sampleGet :: "string list \<Rightarrow> fields \<Rightarrow> Request" where
  "sampleGet p q = \<lparr>httpMethod = ''GET'', path = p, headers = Map.empty, query = q, body = Map.empty\<rparr>"

definition sampleRow :: UseCase where
  "sampleRow =
     \<lparr>useCase = ''Predictive Maintenance'', conceptDescription = ''Use ML to predict failures'',
      concreteImplementation = None, benefit = None, industry = None, department = None,
      valueChainStep = None, url = None, rowId = 1, createdAt = 5, updatedAt = 5\<rparr>"

definition sampleStore :: Store where
  "sampleStore = \<lparr>rows = [sampleRow], nextId = 2\<rparr>"

definition sampleRowAuto :: UseCase where
  "sampleRowAuto =
     \<lparr>useCase = ''Predictive Maintenance'', conceptDescription = ''Use ML to predict failures'',
      concreteImplementation = None, benefit = Some ''Less downtime'',
      industry = Some ''Automotive'', department = None, valueChainStep = None, url = None,
      rowId = 1, createdAt = 5, updatedAt = 5\<rparr>"

definition sampleStoreAuto :: Store where
  "sampleStoreAuto = \<lparr>rows = [sampleRowAuto], nextId = 2\<rparr>"

definition sampleBodyFull :: fields where
  "sampleBodyFull =
     [''useCase'' \<mapsto> ''  Demand Forecasting '',
      ''conceptDescription'' \<mapsto> '' Forecast demand from sales history '',
      ''industry'' \<mapsto> '' Retail '', ''url'' \<mapsto> '' example.com/docs '']"

definition samplePostFull :: Request where
  "samplePostFull =
     \<lparr>httpMethod = ''POST'', path = [''api'', ''use-cases''],
      headers = [''x-api-key'' \<mapsto> ''demo-api-key''], query = Map.empty,
      body = sampleBodyFull\<rparr>"

definition sampleRowFull :: UseCase where
  "sampleRowFull =
     \<lparr>useCase = ''Demand Forecasting'',
      conceptDescription = ''Forecast demand from sales history'',
      concreteImplementation = None, benefit = None, industry = Some ''Retail'',
      department = None, valueChainStep = None, url = Some ''example.com/docs'',
      rowId = 2, createdAt = 7, updatedAt = 7\<rparr>"

definition sampleRecord :: "string \<Rightarrow> string \<Rightarrow> fields" where
  "sampleRecord name u =
     [''Use Case'' \<mapsto> name, ''Concept description'' \<mapsto> ''Use ML to predict failures'',
      ''URL'' \<mapsto> u]"

definition sampleFile :: "fields list" where
  "sampleFile =
     [sampleRecord ''Predictive Maintenance'' ''example.com'',
      sampleRecord ''predictive maintenance'' ''example.com'']"

definition sampleClock :: "nat \<Rightarrow> nat" where
  "sampleClock i = 100 + i"

definition sampleFileMixed :: "fields list" where
  "sampleFileMixed =
     sampleFile @ [sampleRecord ''100% Inspection_v2'' ''not a url'', sampleRecord [] []]"

text \<open>A name with a backslash, as in \<^verbatim>\<open>AI\ML pipeline\<close>, and a POST of the sample body with it.\<close>

definition escapedName :: string where
  "escapedName = ''AI'' @ [CHR 0x5C] @ ''ML pipeline''"

definition samplePostEscaped :: Request where
  "samplePostEscaped =
     \<lparr>httpMethod = ''POST'', path = [''api'', ''use-cases''],
      headers = [''x-api-key'' \<mapsto> ''demo-api-key''], query = Map.empty,
      body = sampleBody(''useCase'' \<mapsto> escapedName)\<rparr>"

section \<open>Facts about strings\<close>

lemma trim_fixed:
  "s = [] \<or> (\<not> isWhitespace (hd s) \<and> \<not> isWhitespace (last s)) \<Longrightarrow> trim s = s"
  unfolding trim_def
  by (metis dropWhile_eq_self_iff hd_rev rev_is_Nil_conv rev_rev_ident)

lemma trim_ends:
  "trim s = [] \<or> (\<not> isWhitespace (hd (trim s)) \<and> \<not> isWhitespace (last (trim s)))"
  unfolding trim_def
  by (metis Nil_is_rev_conv dropWhile.simps(1) hd_dropWhile hd_rev
    last_appendR last_rev takeWhile_dropWhile_id)

lemma trim_trim [simp]: "trim (trim s) = trim s"
  by (rule trim_fixed) (rule trim_ends)

lemma startsWith_iff: "startsWith s p \<longleftrightarrow> (\<exists>v. s = p @ v)"
  by (induction s p rule: startsWith.induct) auto

lemma includesStr_iff: "includesStr s p \<longleftrightarrow> (\<exists>u v. s = u @ p @ v)"
proof (induction s)
  case Nil
  then show ?case by simp
next
  case (Cons c cs)
  show ?case
  proof
    assume "includesStr (c # cs) p"
    then consider "startsWith (c # cs) p" | "includesStr cs p" by auto
    then show "\<exists>u v. c # cs = u @ p @ v"
    proof cases
      case 1
      then obtain v where "c # cs = p @ v" by (auto simp: startsWith_iff)
      then have "c # cs = [] @ p @ v" by simp
      then show ?thesis by blast
    next
      case 2
      then obtain u v where "cs = u @ p @ v" using Cons.IH by blast
      then have "c # cs = (c # u) @ p @ v" by simp
      then show ?thesis by blast
    qed
  next
    assume "\<exists>u v. c # cs = u @ p @ v"
    then obtain u v where uv: "c # cs = u @ p @ v" by blast
    show "includesStr (c # cs) p"
    proof (cases u)
      case Nil
      then have "startsWith (c # cs) p" using uv by (auto simp: startsWith_iff)
      then show ?thesis by simp
    next
      case (Cons a u')
      then have "cs = u' @ p @ v" using uv by simp
      then have "includesStr cs p" using Cons.IH by blast
      then show ?thesis by simp
    qed
  qed
qed

section \<open>Facts about the comparison in the database\<close>

lemma toLowerChar_range:
  "isUpper c \<Longrightarrow> (of_char (toLowerChar c) :: nat) = of_char c + 32"
  by (simp add: toLowerChar_def isUpper_def)

lemma toLowerChar_other:
  assumes "(of_char k :: nat) < 65 \<or> (90 < (of_char k :: nat) \<and> (of_char k :: nat) < 97)"
  shows "toLowerChar c = k \<longleftrightarrow> c = k"
proof (cases "isUpper c")
  case True
  have "toLowerChar c \<noteq> k"
  proof
    assume "toLowerChar c = k"
    then have "(of_char k :: nat) = of_char c + 32" using toLowerChar_range [OF True] by simp
    then show False using True assms by (simp add: isUpper_def)
  qed
  moreover have "c \<noteq> k"
  proof
    assume "c = k"
    then show False using True assms by (simp add: isUpper_def)
  qed
  ultimately show ?thesis by simp
next
  case False
  then show ?thesis by (simp add: toLowerChar_def)
qed

lemma toLowerChar_special:
  "toLowerChar c = CHR 0x5C \<longleftrightarrow> c = CHR 0x5C"
  "toLowerChar c = CHR ''%'' \<longleftrightarrow> c = CHR ''%''"
  "toLowerChar c = CHR ''_'' \<longleftrightarrow> c = CHR ''_''"
  by (simp_all add: toLowerChar_other)

lemma plainText_lower: "plainText (toLowerCase p) = plainText p"
  by (induction p) (simp_all add: plainText_def plainChar_def toLowerCase_def toLowerChar_special)

lemma noBackslash_lower: "noBackslash (toLowerCase p) = noBackslash p"
  by (induction p) (simp_all add: noBackslash_def toLowerCase_def toLowerChar_special)

lemma likeTokens_plain: "plainText p \<Longrightarrow> likeTokens p = map Literal p"
  by (induction p) (simp_all add: plainText_def plainChar_def)

lemma likeMatch_literals:
  "likeMatch (map Literal p @ ts) t \<longleftrightarrow> (\<exists>w. t = p @ w \<and> likeMatch ts w)"
proof (induction p arbitrary: t)
  case Nil
  then show ?case by simp
next
  case (Cons c p)
  then show ?case by (cases t) auto
qed

lemma likeMatch_anyString:
  "likeMatch (AnyString # ts) t \<longleftrightarrow> (\<exists>u w. t = u @ w \<and> likeMatch ts w)"
proof (induction t)
  case Nil
  then show ?case by simp
next
  case (Cons x xs)
  show ?case
  proof
    assume "likeMatch (AnyString # ts) (x # xs)"
    then consider "likeMatch ts (x # xs)" | "likeMatch (AnyString # ts) xs" by auto
    then show "\<exists>u w. x # xs = u @ w \<and> likeMatch ts w"
    proof cases
      case 1
      then have "x # xs = [] @ (x # xs) \<and> likeMatch ts (x # xs)" by simp
      then show ?thesis by blast
    next
      case 2
      then obtain u w where "xs = u @ w" "likeMatch ts w" using Cons.IH by blast
      then have "x # xs = (x # u) @ w \<and> likeMatch ts w" by simp
      then show ?thesis by blast
    qed
  next
    assume "\<exists>u w. x # xs = u @ w \<and> likeMatch ts w"
    then obtain u w where uw: "x # xs = u @ w" "likeMatch ts w" by blast
    show "likeMatch (AnyString # ts) (x # xs)"
    proof (cases u)
      case Nil
      then have "likeMatch ts (x # xs)" using uw by simp
      then show ?thesis by simp
    next
      case (Cons a u')
      then have "xs = u' @ w" using uw by simp
      then have "likeMatch (AnyString # ts) xs" using uw(2) Cons.IH by blast
      then show ?thesis by simp
    qed
  qed
qed

lemma ilike_plain_equals:
  assumes "plainText x"
  shows "ilike v x \<longleftrightarrow> toLowerCase v = toLowerCase x"
proof -
  have "likeTokens (toLowerCase x) = map Literal (toLowerCase x)"
    using assms by (simp add: likeTokens_plain plainText_lower)
  then have "ilike v x \<longleftrightarrow> likeMatch (map Literal (toLowerCase x) @ []) (toLowerCase v)"
    by (simp add: ilike_def)
  also have "\<dots> \<longleftrightarrow> toLowerCase v = toLowerCase x"
    unfolding likeMatch_literals by auto
  finally show ?thesis .
qed

lemma likeTokens_contains:
  assumes "plainText p"
  shows "likeTokens (''%'' @ p @ ''%'') = AnyString # map Literal p @ [AnyString]"
proof -
  have "likeTokens (p @ ''%'') = map Literal p @ [AnyString]"
    using assms by (induction p) (simp_all add: plainText_def plainChar_def)
  then show ?thesis by simp
qed

lemma ilike_plain_contains:
  assumes "plainText x"
  shows "ilike v (''%'' @ x @ ''%'') \<longleftrightarrow> includesStr (toLowerCase v) (toLowerCase x)"
proof -
  have l: "toLowerCase (''%'' @ x @ ''%'') = ''%'' @ toLowerCase x @ ''%''"
    by (simp add: toLowerCase_def toLowerChar_def isUpper_def)
  have "likeTokens (toLowerCase (''%'' @ x @ ''%'')) =
          AnyString # map Literal (toLowerCase x) @ [AnyString]"
    unfolding l using assms by (intro likeTokens_contains) (simp add: plainText_lower)
  then have "ilike v (''%'' @ x @ ''%'') \<longleftrightarrow>
      likeMatch (AnyString # map Literal (toLowerCase x) @ [AnyString]) (toLowerCase v)"
    by (simp add: ilike_def)
  also have "\<dots> \<longleftrightarrow> (\<exists>u w. toLowerCase v = u @ toLowerCase x @ w)"
    by (simp add: likeMatch_anyString likeMatch_literals) blast
  finally show ?thesis by (simp add: includesStr_iff)
qed

lemma likeMatch_self: "noBackslash p \<Longrightarrow> likeMatch (likeTokens p) p"
proof (induction p)
  case Nil
  then show ?case by simp
next
  case (Cons c p)
  then have ih: "likeMatch (likeTokens p) p" and c: "c \<noteq> CHR 0x5C"
    by (simp_all add: noBackslash_def)
  show ?case
  proof (cases "c = CHR ''%''")
    case True
    have "c # p = [c] @ p \<and> likeMatch (likeTokens p) p" using ih by simp
    then have "likeMatch (AnyString # likeTokens p) (c # p)"
      unfolding likeMatch_anyString by blast
    then show ?thesis using True by simp
  next
    case False
    then show ?thesis using c ih by simp
  qed
qed

lemma ilike_self: "noBackslash n \<Longrightarrow> ilike n n"
  by (simp add: ilike_def likeMatch_self noBackslash_lower)

lemma likeTokens_noBackslash: "noBackslash p \<Longrightarrow> DanglingEscape \<notin> set (likeTokens p)"
  by (induction p) (simp_all add: noBackslash_def)

lemma noBackslash_complete: "noBackslash p \<Longrightarrow> completePattern p"
  by (simp add: completePattern_def likeTokens_noBackslash noBackslash_lower)

lemma plainText_noBackslash: "plainText p \<Longrightarrow> noBackslash p"
  by (induction p) (simp_all add: plainText_def plainChar_def noBackslash_def)

section \<open>Facts about decimal parameters\<close>

lemma digit_char_of: "d < 10 \<Longrightarrow> isDigit (char_of (48 + d)) \<and> digitVal (char_of (48 + d)) = d"
  by (simp add: isDigit_def digitVal_def)

lemma showNat_digits: "list_all isDigit (showNat n) \<and> showNat n \<noteq> []"
proof (induction n rule: showNat.induct)
  case (1 n)
  show ?case
  proof (cases "n < 10")
    case True
    then show ?thesis by (simp add: showNat.simps [of n] digit_char_of)
  next
    case False
    have "n mod 10 < 10" by simp
    then have "isDigit (char_of (48 + n mod 10))" using digit_char_of by blast
    then show ?thesis using False 1 by (simp add: showNat.simps [of n])
  qed
qed

lemma digitsValue_snoc: "digitsValue (s @ [c]) = digitsValue s * 10 + digitVal c"
  by (simp add: digitsValue_def)

lemma digitsValue_showNat: "digitsValue (showNat n) = n"
proof (induction n rule: showNat.induct)
  case (1 n)
  show ?case
  proof (cases "n < 10")
    case True
    then show ?thesis by (simp add: showNat.simps [of n] digit_char_of digitsValue_def)
  next
    case False
    have "n mod 10 < 10" by simp
    then have "digitVal (char_of (48 + n mod 10)) = n mod 10" using digit_char_of by blast
    then show ?thesis using False 1 by (simp add: showNat.simps [of n] digitsValue_snoc)
  qed
qed

lemma digit_not_space: "isDigit c \<Longrightarrow> \<not> isWhitespace c \<and> c \<noteq> CHR ''-'' \<and> c \<noteq> CHR ''+''"
  by (auto simp: isDigit_def isWhitespace_def)

lemma takeWhile_all: "list_all P xs \<Longrightarrow> takeWhile P xs = xs"
  by (induction xs) auto

lemma parseInt_digits:
  assumes "list_all isDigit s" "s \<noteq> []"
  shows "parseInt s = Some (int (digitsValue s))"
proof -
  obtain c cs where s: "s = c # cs" using assms(2) by (cases s) auto
  then have c: "isDigit c" using assms(1) by simp
  have dw: "dropWhile isWhitespace s = s" using s c digit_not_space by simp
  have hd: "hd s \<noteq> CHR ''-'' \<and> hd s \<noteq> CHR ''+''" using s digit_not_space [OF c] by simp
  have tw: "takeWhile isDigit s = s" by (rule takeWhile_all [OF assms(1)])
  show ?thesis
    by (simp add: parseInt_def Let_def dw hd tw assms(2))
qed

lemma parseInt_signed:
  assumes "list_all isDigit cs" "cs \<noteq> []" "c = CHR ''-'' \<or> c = CHR ''+''"
  shows "parseInt (c # cs) = Some ((if c = CHR ''-'' then - 1 else 1) * int (digitsValue cs))"
proof -
  have nws: "\<not> isWhitespace c" using assms(3) by (auto simp: isWhitespace_def)
  have tw: "takeWhile isDigit cs = cs" by (rule takeWhile_all [OF assms(1)])
  from assms(3) show ?thesis
  proof
    assume "c = CHR ''-''"
    then show ?thesis using nws by (simp add: parseInt_def Let_def tw assms(2))
  next
    assume "c = CHR ''+''"
    then show ?thesis using nws by (simp add: parseInt_def Let_def tw assms(2))
  qed
qed

lemma signedDecimal_parseInt: "signedDecimal s = Some n \<Longrightarrow> parseInt s = Some n"
proof (cases s)
  case Nil
  assume "signedDecimal s = Some n"
  then show ?thesis using Nil by simp
next
  case (Cons c cs)
  assume a: "signedDecimal s = Some n"
  show ?thesis
  proof (cases "c = CHR ''-'' \<or> c = CHR ''+''")
    case True
    then have "cs \<noteq> [] \<and> list_all isDigit cs" using a Cons by (auto split: if_splits)
    then show ?thesis using parseInt_signed [of cs c] True a Cons by (auto split: if_splits)
  next
    case False
    then have "list_all isDigit (c # cs)" using a Cons by (auto split: if_splits)
    then show ?thesis using parseInt_digits [of "c # cs"] False a Cons by (auto split: if_splits)
  qed
qed

lemma isInt_parseInt:
  "isInt mn mx s \<Longrightarrow> \<exists>n. parseInt s = Some n \<and> signedDecimal s = Some n \<and>
      (case mn of None \<Rightarrow> True | Some m \<Rightarrow> m \<le> n) \<and> (case mx of None \<Rightarrow> True | Some m \<Rightarrow> n \<le> m)"
  by (auto simp: isInt_def signedDecimal_parseInt split: option.splits)

lemma showNat_valid: "signedDecimal (showNat n) = Some (int n)"
proof -
  obtain c cs where s: "showNat n = c # cs" using showNat_digits [of n] by (cases "showNat n") auto
  have "isDigit c" using showNat_digits [of n] s by simp
  then have "c \<noteq> CHR ''-'' \<and> c \<noteq> CHR ''+''" using digit_not_space by blast
  then show ?thesis using showNat_digits [of n] digitsValue_showNat [of n] s by simp
qed


section \<open>Facts about the validation chains\<close>

lemma runChain_required:
  "runChain [Trim, NotEmpty m1, IsLength mn (Some mx) m2] v =
     ((if trim (toStr v) = [] then [m1] else []) @
      (if mn \<le> length (trim (toStr v)) \<and> length (trim (toStr v)) \<le> mx then [] else [m2]),
      Some (trim (toStr v)))"
  by (simp add: Let_def)

lemma runChain_optional:
  "runChain [Optional, Trim, IsLength 0 (Some mx) m] v =
     ((case v of None \<Rightarrow> [] | Some s \<Rightarrow> if length (trim s) \<le> mx then [] else [m]),
      map_option trim v)"
  by (cases v) (simp_all add: Let_def)

lemma runChain_url:
  "runChain [Optional, Trim, Custom urlCustom] v =
     ((case v of
         None \<Rightarrow> []
       | Some s \<Rightarrow>
           if trim s \<noteq> [] \<and> \<not> regexTest urlRegex (trim s) then [''Invalid URL format''] else []),
      map_option trim v)"
  by (cases v) (simp_all add: Let_def urlCustom_def)

lemma create_validation_fields:
  "snd (runValidation createUseCaseValidation b) =
     b(''useCase'' := Some (trim (toStr (b ''useCase''))),
       ''conceptDescription'' := Some (trim (toStr (b ''conceptDescription''))),
       ''concreteImplementation'' := map_option trim (b ''concreteImplementation''),
       ''benefit'' := map_option trim (b ''benefit''),
       ''industry'' := map_option trim (b ''industry''),
       ''department'' := map_option trim (b ''department''),
       ''valueChainStep'' := map_option trim (b ''valueChainStep''),
       ''url'' := map_option trim (b ''url''))"
  unfolding createUseCaseValidation_def
  by (simp add: runChain_required runChain_optional runChain_url split_def Let_def
        del: runChain.simps)

lemma trim_Nil [simp]: "trim [] = []"
  by (simp add: trim_def)

lemma required_ok:
  "0 < mn \<Longrightarrow>
   fst (runChain [Trim, NotEmpty m1, IsLength mn (Some mx) m2] v) = [] \<longleftrightarrow>
     mn \<le> length (trim (toStr v)) \<and> length (trim (toStr v)) \<le> mx"
  by (auto simp: runChain_required simp del: runChain.simps)

lemma optional_ok:
  "fst (runChain [Optional, Trim, IsLength 0 (Some mx) m] v) = [] \<longleftrightarrow>
     length (trim (toStr v)) \<le> mx"
  by (cases v) (simp_all add: runChain_optional del: runChain.simps)

lemma url_ok:
  "fst (runChain [Optional, Trim, Custom urlCustom] v) = [] \<longleftrightarrow>
     trim (toStr v) = [] \<or> regexTest urlRegex (trim (toStr v))"
  by (cases v) (simp_all add: runChain_url del: runChain.simps)

lemma runValidation_ok_Cons:
  "fst (runValidation ((f, steps) # cs) obj) = [] \<longleftrightarrow>
     fst (runChain steps (obj f)) = [] \<and>
     fst (runValidation cs (obj(f := snd (runChain steps (obj f))))) = []"
  by (simp add: split_def Let_def)

lemma create_validation_errors:
  "fst (runValidation createUseCaseValidation b) = [] \<longleftrightarrow>
     3 \<le> length (trim (toStr (b ''useCase''))) \<and> length (trim (toStr (b ''useCase''))) \<le> 500 \<and>
     10 \<le> length (trim (toStr (b ''conceptDescription''))) \<and>
     length (trim (toStr (b ''conceptDescription''))) \<le> 10000 \<and>
     length (trim (toStr (b ''concreteImplementation''))) \<le> 10000 \<and>
     length (trim (toStr (b ''benefit''))) \<le> 5000 \<and>
     length (trim (toStr (b ''industry''))) \<le> 200 \<and>
     length (trim (toStr (b ''department''))) \<le> 200 \<and>
     length (trim (toStr (b ''valueChainStep''))) \<le> 200 \<and>
     (trim (toStr (b ''url'')) = [] \<or> regexTest urlRegex (trim (toStr (b ''url''))))"
  unfolding createUseCaseValidation_def
  by (simp add: runValidation_ok_Cons required_ok optional_ok url_ok
        del: runChain.simps runValidation.simps(2))

section \<open>The error handler on the errors the routes raise\<close>

lemma errorHandler_Unauthorized:
  "errorHandler UnauthorizedError =
     (401, ErrorBody ''Unauthorized: Invalid or missing API key'' ''UNAUTHORIZED_ERROR'' None)"
  by code_simp

lemma errorHandler_AppError:
  "errorHandler (AppError msg code) = (code, ErrorBody msg ''APP_ERROR'' None)"
proof -
  have "replaceFirst ''ERROR'' ''_ERROR'' (toUpperCase ''AppError'') = ''APP_ERROR''"
    by code_simp
  then show ?thesis by simp
qed

lemma errorHandler_NotFound:
  "errorHandler (NotFoundError resource i) =
     (404, ErrorBody (resource @ '' with id '' @ showInt i @ '' not found'') ''NOTFOUND_ERROR'' None)"
proof -
  have "replaceFirst ''ERROR'' ''_ERROR'' (toUpperCase ''NotFoundError'') = ''NOTFOUND_ERROR''"
    by code_simp
  then show ?thesis by simp
qed

section \<open>The API key check\<close>

lemma truthy_Some_nonempty: "k \<noteq> [] \<Longrightarrow> truthy (Some k)"
  by simp

text \<open>
  Claim C8. With a configured secret, a POST request whose \<^verbatim>\<open>x-api-key\<close> header is absent
  or different from the secret gets the unauthorized error from the middleware, and on every
  path under \<^verbatim>\<open>/api\<close> the application answers 401 without running a route (the store is
  unchanged). A POST request with the right key passes. With no secret configured every POST
  request passes, with a warning on the console. A request with another httpMethod always passes.
\<close>

theorem api_key_check:
  "(API_KEY \<noteq> [] \<and> httpMethod req = ''POST'' \<and> headers req ''x-api-key'' \<noteq> Some API_KEY \<longrightarrow>
      apiKeyAuthMiddleware API_KEY req = ([], Some UnauthorizedError) \<and>
      (take 1 (path req) = [''api''] \<longrightarrow>
         app API_KEY now req st =
           ((401, ErrorBody ''Unauthorized: Invalid or missing API key''
                    ''UNAUTHORIZED_ERROR'' None), st))) \<and>
   (API_KEY \<noteq> [] \<and> httpMethod req = ''POST'' \<and> headers req ''x-api-key'' = Some API_KEY \<longrightarrow>
      apiKeyAuthMiddleware API_KEY req = ([], None) \<and>
      app API_KEY now req st = routes now req st) \<and>
   (API_KEY = [] \<and> httpMethod req = ''POST'' \<longrightarrow>
      apiKeyAuthMiddleware API_KEY req =
        ([''WARNING: API_KEY is not configured. POST requests are unprotected.''], None) \<and>
      app API_KEY now req st = routes now req st) \<and>
   (httpMethod req \<noteq> ''POST'' \<longrightarrow> apiKeyAuthMiddleware API_KEY req = ([], None))"
  by (simp add: apiKeyAuthMiddleware_def app_def errorHandler_Unauthorized Let_def
        del: errorHandler.simps)

theorem api_key_check_witness:
  "app ''demo-api-key'' 5 (samplePost\<lparr>headers := [''x-api-key'' \<mapsto> ''guess'']\<rparr>) emptyStore =
     ((401, ErrorBody ''Unauthorized: Invalid or missing API key'' ''UNAUTHORIZED_ERROR'' None),
      emptyStore) \<and>
   app ''demo-api-key'' 5 (samplePost\<lparr>headers := Map.empty\<rparr>) emptyStore =
     ((401, ErrorBody ''Unauthorized: Invalid or missing API key'' ''UNAUTHORIZED_ERROR'' None),
      emptyStore) \<and>
   app ''demo-api-key'' 5 samplePost emptyStore = routes 5 samplePost emptyStore \<and>
   app [] 5 (samplePost\<lparr>headers := Map.empty\<rparr>) emptyStore =
     routes 5 (samplePost\<lparr>headers := Map.empty\<rparr>) emptyStore \<and>
   apiKeyAuthMiddleware ''demo-api-key'' (sampleGet [''api'', ''use-cases''] Map.empty) = ([], None)"
  using api_key_check [of "''demo-api-key''" "samplePost\<lparr>headers := [''x-api-key'' \<mapsto> ''guess'']\<rparr>"
          5 emptyStore]
        api_key_check [of "''demo-api-key''" "samplePost\<lparr>headers := Map.empty\<rparr>" 5 emptyStore]
        api_key_check [of "''demo-api-key''" samplePost 5 emptyStore]
        api_key_check [of "[]" "samplePost\<lparr>headers := Map.empty\<rparr>" 5 emptyStore]
        api_key_check [of "''demo-api-key''" "sampleGet [''api'', ''use-cases''] Map.empty" 5
          emptyStore]
  by (simp add: samplePost_def sampleGet_def)

section \<open>Creating a use case\<close>

lemma not_a_url: "\<not> regexTest urlRegex ''not a url''"
  by code_simp

lemma example_url: "regexTest urlRegex ''example.com/docs''"
  by code_simp

lemma nameWhere_matches:
  "rowMatches \<lparr>w_columns = [(ColUseCase, EqualsInsensitive n)], w_OR = None\<rparr> r \<longleftrightarrow>
     ilike (useCase r) n"
  by (simp add: rowMatches_def condHolds_def)

lemma findFirst_name_None:
  "findFirst \<lparr>w_columns = [(ColUseCase, EqualsInsensitive n)], w_OR = None\<rparr> st = None \<longleftrightarrow>
     \<not> nameTaken st n"
  by (auto simp: findFirst_def find_None_iff nameWhere_matches nameTaken_def list_ex_iff)

lemma nameTaken_empty [simp]: "\<not> nameTaken emptyStore n"
  by (simp add: nameTaken_def emptyStore_def)


lemma createUseCase_conflict:
  assumes "b ''useCase'' = Some u" "b ''conceptDescription'' = Some d"
    and "nameTaken st (trim u)"
  shows "createUseCase now b st =
           ((409, ErrorBody ''A use case with this name already exists'' ''APP_ERROR'' None), st)"
proof -
  have "findFirst \<lparr>w_columns = [(ColUseCase, EqualsInsensitive (trim u))], w_OR = None\<rparr> st \<noteq> None"
    using assms(3) by (simp add: findFirst_name_None)
  then show ?thesis
    using assms(1,2)
    by (auto simp: createUseCase_def errorHandler_AppError simp del: errorHandler.simps)
qed

lemma createUseCase_created:
  assumes "b ''useCase'' = Some u" "b ''conceptDescription'' = Some d"
    and "\<not> nameTaken st (trim u)"
  shows "createUseCase now b st =
           (let r = \<lparr>useCase = trim u, conceptDescription = trim d,
                     concreteImplementation = map_option trim (b ''concreteImplementation''),
                     benefit = map_option trim (b ''benefit''),
                     industry = map_option trim (b ''industry''),
                     department = map_option trim (b ''department''),
                     valueChainStep = map_option trim (b ''valueChainStep''),
                     url = map_option trim (b ''url''),
                     rowId = nextId st, createdAt = now, updatedAt = now\<rparr>
            in ((201, CreatedBody ''Use case created successfully'' r),
                st\<lparr>rows := rows st @ [r], nextId := Suc (nextId st)\<rparr>))"
proof -
  have "findFirst \<lparr>w_columns = [(ColUseCase, EqualsInsensitive (trim u))], w_OR = None\<rparr> st = None"
    using assms(3) by (simp add: findFirst_name_None)
  then show ?thesis
    using assms(1,2) by (simp add: createUseCase_def create_def Let_def)
qed


lemma create_validation_Inr:
  "handleValidationErrors createUseCaseValidation b = Inr b' \<longleftrightarrow>
     fst (runValidation createUseCaseValidation b) = [] \<and>
     b' = snd (runValidation createUseCaseValidation b)"
  by (auto simp: handleValidationErrors_def split_def Let_def)

lemma showNat_not_filters: "showNat n \<noteq> ''filters''"
proof
  assume "showNat n = ''filters''"
  then have "list_all isDigit ''filters''" using showNat_digits [of n] by simp
  then show False by (simp add: isDigit_def)
qed

lemma id_validation_showNat:
  "0 < n \<Longrightarrow> handleValidationErrors idParamValidation [''id'' \<mapsto> showNat n] = Inr [''id'' \<mapsto> showNat n]"
  by (simp add: handleValidationErrors_def idParamValidation_def isInt_def showNat_valid)

lemma findUnique_new:
  assumes "list_all (\<lambda>r. rowId r < n) rs" "rowId r = n"
  shows "find (\<lambda>x. int (rowId x) = int n) (rs @ [r]) = Some r"
  using assms by (induction rs) auto

lemma get_by_id_found:
  assumes "httpMethod req = ''GET''" "path req = [''api'', ''use-cases'', showNat n]" "0 < n"
    and "find (\<lambda>x. int (rowId x) = int n) (rows st) = Some r"
  shows "routes now req st = ((200, DataBody r), st)"
  using assms showNat_not_filters [of n] id_validation_showNat [of n]
  by (simp add: routes_def getUseCase_def findUnique_def signedDecimal_parseInt [OF showNat_valid])


lemma map_option_trim_trim [simp]: "map_option trim (map_option trim v) = map_option trim v"
  by (cases v) simp_all

lemma post_passes_auth:
  assumes "httpMethod req = ''POST''" "path req = [''api'', ''use-cases'']"
    and "API_KEY = [] \<or> headers req ''x-api-key'' = Some API_KEY"
  shows "app API_KEY now req st =
           (case handleValidationErrors createUseCaseValidation (body req) of
              Inl e \<Rightarrow> (errorHandler e, st)
            | Inr b \<Rightarrow> createUseCase now b st)"
  using assms by (auto simp: app_def routes_def apiKeyAuthMiddleware_def Let_def)

lemma get_passes_auth:
  assumes "httpMethod req = ''GET''" "path req = [''api'', ''use-cases'', p]"
  shows "app API_KEY now req st = routes now req st"
  using assms by (simp add: app_def apiKeyAuthMiddleware_def)

lemma post_created:
  assumes "httpMethod req = ''POST''" and "path req = [''api'', ''use-cases'']"
    and "API_KEY = [] \<or> headers req ''x-api-key'' = Some API_KEY"
    and "\<exists>b. handleValidationErrors createUseCaseValidation (body req) = Inr b"
    and "\<not> nameTaken st (trim (toStr (body req ''useCase'')))"
  shows "app API_KEY now req st =
           (let r = \<lparr>useCase = trim (toStr (body req ''useCase'')),
                     conceptDescription = trim (toStr (body req ''conceptDescription'')),
                     concreteImplementation =
                       map_option trim (body req ''concreteImplementation''),
                     benefit = map_option trim (body req ''benefit''),
                     industry = map_option trim (body req ''industry''),
                     department = map_option trim (body req ''department''),
                     valueChainStep = map_option trim (body req ''valueChainStep''),
                     url = map_option trim (body req ''url''),
                     rowId = nextId st, createdAt = now, updatedAt = now\<rparr>
            in ((201, CreatedBody ''Use case created successfully'' r),
                st\<lparr>rows := rows st @ [r], nextId := Suc (nextId st)\<rparr>))"
proof -
  define b where "b = snd (runValidation createUseCaseValidation (body req))"
  have valid: "handleValidationErrors createUseCaseValidation (body req) = Inr b"
    using assms(4) by (auto simp: create_validation_Inr b_def)
  have bu: "b ''useCase'' = Some (trim (toStr (body req ''useCase'')))"
    and bd: "b ''conceptDescription'' = Some (trim (toStr (body req ''conceptDescription'')))"
    and bo: "b ''concreteImplementation'' = map_option trim (body req ''concreteImplementation'')"
      "b ''benefit'' = map_option trim (body req ''benefit'')"
      "b ''industry'' = map_option trim (body req ''industry'')"
      "b ''department'' = map_option trim (body req ''department'')"
      "b ''valueChainStep'' = map_option trim (body req ''valueChainStep'')"
      "b ''url'' = map_option trim (body req ''url'')"
    unfolding b_def create_validation_fields by simp_all
  have fresh: "\<not> nameTaken st (trim (trim (toStr (body req ''useCase''))))"
    using assms(5) by simp
  show ?thesis
    using post_passes_auth [OF assms(1-3), of now st] valid
      createUseCase_created [OF bu bd fresh, of now]
    by (simp add: bo Let_def)
qed

text \<open>
  Claim C6. A POST to \<^verbatim>\<open>/api/use-cases\<close> that passes the key check, the validation and
  the duplicate check (the database can compare the trimmed name, and no stored name
  matches it) answers 201 with the created row: its string fields are the trimmed
  submitted fields, an absent optional field is \<^verbatim>\<open>null\<close>, its id is the next value of the
  sequence (which no stored row has) and both timestamps are the time of the request. The
  row is appended to the table, and a GET of \<^verbatim>\<open>/api/use-cases/<id>\<close> with that id
  afterwards answers 200 with the same row.
\<close>

theorem create_returns_row:
  assumes "httpMethod req = ''POST''" and "path req = [''api'', ''use-cases'']"
    and "API_KEY = [] \<or> headers req ''x-api-key'' = Some API_KEY"
    and "\<exists>b. handleValidationErrors createUseCaseValidation (body req) = Inr b"
    and "\<not> nameTaken st (trim (toStr (body req ''useCase'')))"
    and "completePattern (trim (toStr (body req ''useCase'')))"
    and "idsGenerated st"
    and "httpMethod req' = ''GET''" and "path req' = [''api'', ''use-cases'', showNat (nextId st)]"
  shows "let r = \<lparr>useCase = trim (toStr (body req ''useCase'')),
                  conceptDescription = trim (toStr (body req ''conceptDescription'')),
                  concreteImplementation = map_option trim (body req ''concreteImplementation''),
                  benefit = map_option trim (body req ''benefit''),
                  industry = map_option trim (body req ''industry''),
                  department = map_option trim (body req ''department''),
                  valueChainStep = map_option trim (body req ''valueChainStep''),
                  url = map_option trim (body req ''url''),
                  rowId = nextId st, createdAt = now, updatedAt = now\<rparr>;
             st' = st\<lparr>rows := rows st @ [r], nextId := Suc (nextId st)\<rparr>
         in app API_KEY now req st = ((201, CreatedBody ''Use case created successfully'' r), st') \<and>
            rowId r \<notin> set (map rowId (rows st)) \<and>
            app API_KEY now' req' st' = ((200, DataBody r), st')"
proof -
  define r where "r = \<lparr>useCase = trim (toStr (body req ''useCase'')),
                  conceptDescription = trim (toStr (body req ''conceptDescription'')),
                  concreteImplementation = map_option trim (body req ''concreteImplementation''),
                  benefit = map_option trim (body req ''benefit''),
                  industry = map_option trim (body req ''industry''),
                  department = map_option trim (body req ''department''),
                  valueChainStep = map_option trim (body req ''valueChainStep''),
                  url = map_option trim (body req ''url''),
                  rowId = nextId st, createdAt = now, updatedAt = now\<rparr>"
  define st' where "st' = st\<lparr>rows := rows st @ [r], nextId := Suc (nextId st)\<rparr>"
  have post: "app API_KEY now req st =
                ((201, CreatedBody ''Use case created successfully'' r), st')"
    using post_created [OF assms(1-5), of now] by (simp add: r_def st'_def Let_def)
  have ids: "list_all (\<lambda>x. rowId x < nextId st) (rows st)" and pos: "0 < nextId st"
    using assms(7) by (simp_all add: idsGenerated_def)
  have new: "rowId r \<notin> set (map rowId (rows st))"
    using ids by (auto simp: r_def list_all_iff)
  have "find (\<lambda>x. int (rowId x) = int (nextId st)) (rows st') = Some r"
    unfolding st'_def using findUnique_new [OF ids, of r] by (simp add: r_def)
  then have get: "app API_KEY now' req' st' = ((200, DataBody r), st')"
    using get_passes_auth [OF assms(8,9)] get_by_id_found [OF assms(8,9) pos] by simp
  show ?thesis
    using post new get unfolding Let_def r_def st'_def by simp
qed

lemma sample_trim:
  "trim ''Predictive Maintenance'' = ''Predictive Maintenance''"
  "trim ''Use ML to predict failures'' = ''Use ML to predict failures''"
  by (simp_all add: trim_def isWhitespace_def)

lemma sample_valid:
  "\<exists>b. handleValidationErrors createUseCaseValidation (body samplePost) = Inr b"
  by (simp add: create_validation_Inr create_validation_errors samplePost_def sampleBody_def
        sample_trim)

lemma sample_full_trim:
  "trim ''  Demand Forecasting '' = ''Demand Forecasting''"
  "trim '' Forecast demand from sales history '' = ''Forecast demand from sales history''"
  "trim '' Retail '' = ''Retail''"
  "trim '' example.com/docs '' = ''example.com/docs''"
  by (simp_all add: trim_def isWhitespace_def)

theorem create_returns_row_witness:
  "app ''demo-api-key'' 7 samplePostFull sampleStore =
     ((201, CreatedBody ''Use case created successfully'' sampleRowFull),
      \<lparr>rows = [sampleRow, sampleRowFull], nextId = 3\<rparr>) \<and>
   app ''demo-api-key'' 8 (sampleGet [''api'', ''use-cases'', ''2''] Map.empty)
       \<lparr>rows = [sampleRow, sampleRowFull], nextId = 3\<rparr> =
     ((200, DataBody sampleRowFull), \<lparr>rows = [sampleRow, sampleRowFull], nextId = 3\<rparr>)"
proof -
  have two: "showNat 2 = ''2''"
    by code_simp
  have h1: "httpMethod samplePostFull = ''POST''"
    and h2: "path samplePostFull = [''api'', ''use-cases'']"
    and h3: "''demo-api-key'' = [] \<or> headers samplePostFull ''x-api-key'' = Some ''demo-api-key''"
    by (simp_all add: samplePostFull_def)
  have h4: "\<exists>b. handleValidationErrors createUseCaseValidation (body samplePostFull) = Inr b"
    by (simp add: create_validation_Inr create_validation_errors samplePostFull_def
          sampleBodyFull_def sample_full_trim example_url)
  have n: "trim (toStr (body samplePostFull ''useCase'')) = ''Demand Forecasting''"
    by (simp add: samplePostFull_def sampleBodyFull_def sample_full_trim)
  have "\<not> nameTaken sampleStore ''Demand Forecasting''"
    and "completePattern ''Demand Forecasting''"
    by code_simp+
  then have h5: "\<not> nameTaken sampleStore (trim (toStr (body samplePostFull ''useCase'')))"
    and h6: "completePattern (trim (toStr (body samplePostFull ''useCase'')))"
    by (simp_all add: n)
  have h7: "idsGenerated sampleStore"
    by (simp add: idsGenerated_def sampleStore_def sampleRow_def)
  have h8: "httpMethod (sampleGet [''api'', ''use-cases'', ''2''] Map.empty) = ''GET''"
    and h9: "path (sampleGet [''api'', ''use-cases'', ''2''] Map.empty) =
               [''api'', ''use-cases'', showNat (nextId sampleStore)]"
    by (simp_all add: sampleGet_def sampleStore_def two)
  show ?thesis
    using create_returns_row [OF h1 h2 h3 h4 h5 h6 h7 h8 h9, of 7 8]
    by (simp add: Let_def samplePostFull_def sampleBodyFull_def sampleStore_def
          sampleRowFull_def sample_full_trim)
qed


section \<open>Duplicates and missing rows\<close>

lemma post_duplicate_conflict:
  assumes "httpMethod req = ''POST''" and "path req = [''api'', ''use-cases'']"
    and "API_KEY = [] \<or> headers req ''x-api-key'' = Some API_KEY"
    and "\<exists>b. handleValidationErrors createUseCaseValidation (body req) = Inr b"
    and "nameTaken st (trim (toStr (body req ''useCase'')))"
  shows "app API_KEY now req st =
           ((409, ErrorBody ''A use case with this name already exists'' ''APP_ERROR'' None), st)"
proof -
  define b where "b = snd (runValidation createUseCaseValidation (body req))"
  have valid: "handleValidationErrors createUseCaseValidation (body req) = Inr b"
    using assms(4) by (auto simp: create_validation_Inr b_def)
  have bu: "b ''useCase'' = Some (trim (toStr (body req ''useCase'')))"
    and bd: "b ''conceptDescription'' = Some (trim (toStr (body req ''conceptDescription'')))"
    unfolding b_def create_validation_fields by simp_all
  have dup: "nameTaken st (trim (trim (toStr (body req ''useCase''))))"
    using assms(5) by simp
  show ?thesis
    using post_passes_auth [OF assms(1-3), of now st] valid
      createUseCase_conflict [OF bu bd dup, of now]
    by simp
qed

lemma signedDecimal_not_filters: "signedDecimal p = Some i \<Longrightarrow> p \<noteq> ''filters''"
  by (auto simp: isDigit_def)

lemma id_validation_ok:
  "isInt (Some 1) None p \<Longrightarrow> handleValidationErrors idParamValidation [''id'' \<mapsto> p] = Inr [''id'' \<mapsto> p]"
  by (simp add: handleValidationErrors_def idParamValidation_def)

lemma id_validation_fails:
  "\<not> isInt (Some 1) None p \<Longrightarrow>
   handleValidationErrors idParamValidation [''id'' \<mapsto> p] =
     Inl (ValidationAppError [(''id'', ''ID must be a positive integer'')])"
  by (simp add: handleValidationErrors_def idParamValidation_def)

lemma get_by_id_missing:
  assumes "httpMethod req = ''GET''" "path req = [''api'', ''use-cases'', p]"
    and "signedDecimal p = Some i" "1 \<le> i"
    and "find (\<lambda>x. int (rowId x) = i) (rows st) = None"
  shows "app API_KEY now req st =
           ((404, ErrorBody (''UseCase with id '' @ showInt i @ '' not found'')
                    ''NOTFOUND_ERROR'' None), st)"
proof -
  have int: "isInt (Some 1) None p" using assms(3,4) by (simp add: isInt_def)
  show ?thesis
    using assms(1,2,5) signedDecimal_not_filters [OF assms(3)] id_validation_ok [OF int]
      signedDecimal_parseInt [OF assms(3)]
    by (simp add: get_passes_auth routes_def getUseCase_def findUnique_def errorHandler_NotFound
          del: errorHandler.simps)
qed

lemma get_by_id_invalid:
  assumes "httpMethod req = ''GET''" "path req = [''api'', ''use-cases'', p]"
    and "p \<noteq> ''filters''" "\<not> isInt (Some 1) None p"
  shows "app API_KEY now req st =
           ((400, ErrorBody ''Validation failed'' ''VALIDATION_ERROR''
                    (Some [(''id'', ''ID must be a positive integer'')])), st)"
  using assms id_validation_fails [OF assms(4)]
  by (simp add: get_passes_auth routes_def)


lemma sample_post_created:
  "app ''demo-api-key'' 5 samplePost emptyStore =
     ((201, CreatedBody ''Use case created successfully'' sampleRow), sampleStore)"
proof -
  have h1: "httpMethod samplePost = ''POST''" and h2: "path samplePost = [''api'', ''use-cases'']"
    and h3: "''demo-api-key'' = [] \<or> headers samplePost ''x-api-key'' = Some ''demo-api-key''"
    by (simp_all add: samplePost_def)
  have h5: "\<not> nameTaken emptyStore (trim (toStr (body samplePost ''useCase'')))"
    by simp
  show ?thesis
    using post_created [OF h1 h2 h3 sample_valid h5, where now = 5]
    by (simp add: Let_def samplePost_def sampleBody_def emptyStore_def sample_trim
          sampleRow_def sampleStore_def numeral_2_eq_2)
qed

lemma sample_variant_name:
  "trim '' predictive MAINTENANCE '' = ''predictive MAINTENANCE''"
  "nameTaken sampleStore ''predictive MAINTENANCE''"
  by code_simp+

text \<open>
  Claim C1 (the code differs). The sample body is created in the empty table; a second POST
  with the same name in another case and with surrounding blanks stores nothing and is
  answered with status 409, but the error code of the answer is \<^verbatim>\<open>APP_ERROR\<close>, not
  \<^verbatim>\<open>DUPLICATE_ENTRY\<close>: the handler throws a plain \<^verbatim>\<open>AppError\<close>, and the error handler
  derives the code from the name of the class.
\<close>

theorem duplicate_create_code:
  "app ''demo-api-key'' 5 samplePost emptyStore =
     ((201, CreatedBody ''Use case created successfully'' sampleRow), sampleStore) \<and>
   app ''demo-api-key'' 6
       (samplePost\<lparr>body := sampleBody(''useCase'' \<mapsto> '' predictive MAINTENANCE '')\<rparr>)
       sampleStore =
     ((409, ErrorBody ''A use case with this name already exists'' ''APP_ERROR'' None),
      sampleStore) \<and>
   length (rows sampleStore) = 1"
proof -
  let ?req = "samplePost\<lparr>body := sampleBody(''useCase'' \<mapsto> '' predictive MAINTENANCE '')\<rparr>"
  have h1: "httpMethod ?req = ''POST''" and h2: "path ?req = [''api'', ''use-cases'']"
    and h3: "''demo-api-key'' = [] \<or> headers ?req ''x-api-key'' = Some ''demo-api-key''"
    by (simp_all add: samplePost_def)
  have h4: "\<exists>b. handleValidationErrors createUseCaseValidation (body ?req) = Inr b"
    by (simp add: create_validation_Inr create_validation_errors sampleBody_def
          sample_trim sample_variant_name)
  have h5: "nameTaken sampleStore (trim (toStr (body ?req ''useCase'')))"
    by (simp add: sample_variant_name)
  show ?thesis
    using sample_post_created post_duplicate_conflict [OF h1 h2 h3 h4 h5, where now = 6]
    by (simp add: sampleStore_def)
qed

text \<open>
  The existence check reads the submitted name as a pattern: a POST of
  \<^verbatim>\<open>Predictive_Maintenance\<close> on the table that holds \<^verbatim>\<open>Predictive Maintenance\<close> is answered
  409 and stores nothing, though the two names differ.
\<close>

lemma pattern_name_conflict:
  "app ''demo-api-key'' 6
       (samplePost\<lparr>body := sampleBody(''useCase'' \<mapsto> ''Predictive_Maintenance'')\<rparr>)
       sampleStore =
     ((409, ErrorBody ''A use case with this name already exists'' ''APP_ERROR'' None),
      sampleStore)"
proof -
  let ?req = "samplePost\<lparr>body := sampleBody(''useCase'' \<mapsto> ''Predictive_Maintenance'')\<rparr>"
  have t: "trim ''Predictive_Maintenance'' = ''Predictive_Maintenance''"
    by (simp add: trim_def isWhitespace_def)
  have n: "nameTaken sampleStore ''Predictive_Maintenance''"
    by code_simp
  have h1: "httpMethod ?req = ''POST''" and h2: "path ?req = [''api'', ''use-cases'']"
    and h3: "''demo-api-key'' = [] \<or> headers ?req ''x-api-key'' = Some ''demo-api-key''"
    by (simp_all add: samplePost_def)
  have h4: "\<exists>b. handleValidationErrors createUseCaseValidation (body ?req) = Inr b"
    by (simp add: create_validation_Inr create_validation_errors sampleBody_def sample_trim t)
  have h5: "nameTaken sampleStore (trim (toStr (body ?req ''useCase'')))"
    by (simp add: t n)
  show ?thesis
    using post_duplicate_conflict [OF h1 h2 h3 h4 h5, where now = 6] by simp
qed

lemma showInt_7: "showInt 7 = ''7''"
  by code_simp

text \<open>
  Claim C4 (the code differs). A GET of \<^verbatim>\<open>/api/use-cases/7\<close> on a table without a row 7
  is answered with status 404, but the error code of the answer is \<^verbatim>\<open>NOTFOUND_ERROR\<close>, not
  \<^verbatim>\<open>NOT_FOUND\<close>: the error handler derives the code from the class name
  \<^verbatim>\<open>NotFoundError\<close>. The id of a stored row is answered with the row, and an id that is
  not a positive integer fails validation.
\<close>

theorem get_missing_code:
  "app ''demo-api-key'' 6 (sampleGet [''api'', ''use-cases'', ''7''] Map.empty) sampleStore =
     ((404, ErrorBody ''UseCase with id 7 not found'' ''NOTFOUND_ERROR'' None), sampleStore) \<and>
   app ''demo-api-key'' 6 (sampleGet [''api'', ''use-cases'', ''1''] Map.empty) sampleStore =
     ((200, DataBody sampleRow), sampleStore) \<and>
   app ''demo-api-key'' 6 (sampleGet [''api'', ''use-cases'', ''0''] Map.empty) sampleStore =
     ((400, ErrorBody ''Validation failed'' ''VALIDATION_ERROR''
              (Some [(''id'', ''ID must be a positive integer'')])), sampleStore) \<and>
   app ''demo-api-key'' 6 (sampleGet [''api'', ''use-cases'', ''abc''] Map.empty) sampleStore =
     ((400, ErrorBody ''Validation failed'' ''VALIDATION_ERROR''
              (Some [(''id'', ''ID must be a positive integer'')])), sampleStore)"
proof -
  have g: "httpMethod (sampleGet [''api'', ''use-cases'', p] Map.empty) = ''GET''"
    "path (sampleGet [''api'', ''use-cases'', p] Map.empty) = [''api'', ''use-cases'', p]" for p
    by (simp_all add: sampleGet_def)
  have d7: "signedDecimal ''7'' = Some 7" and d1: "showNat (Suc 0) = ''1''"
    and n0: "\<not> isInt (Some 1) None ''0''" and nabc: "\<not> isInt (Some 1) None ''abc''"
    by code_simp+
  have g1: "path (sampleGet [''api'', ''use-cases'', ''1''] Map.empty) =
              [''api'', ''use-cases'', showNat (Suc 0)]"
    by (simp add: sampleGet_def d1)
  have m7: "find (\<lambda>x. int (rowId x) = 7) (rows sampleStore) = None"
    and f1: "find (\<lambda>x. int (rowId x) = int (Suc 0)) (rows sampleStore) = Some sampleRow"
    by (simp_all add: sampleStore_def sampleRow_def)
  have a: "app ''demo-api-key'' 6 (sampleGet [''api'', ''use-cases'', ''7''] Map.empty) sampleStore =
             ((404, ErrorBody ''UseCase with id 7 not found'' ''NOTFOUND_ERROR'' None), sampleStore)"
    using get_by_id_missing [OF g d7 _ m7, where API_KEY = "''demo-api-key''" and now = 6]
    by (simp add: showInt_7)
  have b: "app ''demo-api-key'' 6 (sampleGet [''api'', ''use-cases'', ''1''] Map.empty) sampleStore =
             ((200, DataBody sampleRow), sampleStore)"
    using get_by_id_found [OF g(1) g1 _ f1, where now = 6]
      get_passes_auth [OF g(1) g1, where API_KEY = "''demo-api-key''" and now = 6
        and st = sampleStore]
    by simp
  have c: "app ''demo-api-key'' 6 (sampleGet [''api'', ''use-cases'', ''0''] Map.empty) sampleStore =
             ((400, ErrorBody ''Validation failed'' ''VALIDATION_ERROR''
                (Some [(''id'', ''ID must be a positive integer'')])), sampleStore)"
    using get_by_id_invalid [OF g _ n0] by simp
  have d: "app ''demo-api-key'' 6 (sampleGet [''api'', ''use-cases'', ''abc''] Map.empty) sampleStore =
             ((400, ErrorBody ''Validation failed'' ''VALIDATION_ERROR''
                (Some [(''id'', ''ID must be a positive integer'')])), sampleStore)"
    using get_by_id_invalid [OF g _ nabc] by simp
  show ?thesis using a b c d by simp
qed


section \<open>The matcher decides the language of a pattern\<close>

inductive_cases matches_NeverE: "matches Never w"
inductive_cases matches_EmptyE: "matches Empty w"
inductive_cases matches_ClassE: "matches (Class p) w"
inductive_cases matches_CatE: "matches (Cat r s) w"
inductive_cases matches_OrE: "matches (Or r s) w"

lemma nullable_matches: "nullable r \<longleftrightarrow> matches r []"
proof (induction r)
  case Never
  then show ?case by (auto elim: matches_NeverE)
next
  case Empty
  then show ?case by (auto intro: m_empty)
next
  case (Class p)
  then show ?case by (auto elim: matches_ClassE)
next
  case (Cat r s)
  show ?case
  proof
    assume "nullable (Cat r s)"
    then have "matches r []" "matches s []" using Cat by simp_all
    then have "matches (Cat r s) ([] @ [])" by (rule m_cat)
    then show "matches (Cat r s) []" by simp
  next
    assume "matches (Cat r s) []"
    then show "nullable (Cat r s)" using Cat by (auto elim: matches_CatE)
  qed
next
  case (Or r s)
  then show ?case by (auto intro: m_or1 m_or2 elim: matches_OrE)
next
  case (Star r)
  then show ?case by (auto intro: m_star0)
qed

lemma star_first_piece:
  "matches q w \<Longrightarrow> q = Star r \<Longrightarrow> w \<noteq> [] \<Longrightarrow>
   \<exists>u v. w = u @ v \<and> u \<noteq> [] \<and> matches r u \<and> matches (Star r) v"
proof (induction rule: matches.induct)
  case (m_star r' u v)
  show ?case
  proof (cases "u = []")
    case True
    then show ?thesis using m_star by simp
  next
    case False
    then show ?thesis using m_star by blast
  qed
qed simp_all

lemma matches_deriv: "matches (deriv c r) w \<longleftrightarrow> matches r (c # w)"
proof (induction r arbitrary: w)
  case Never
  then show ?case by (auto elim: matches_NeverE)
next
  case Empty
  then show ?case by (auto elim: matches_NeverE matches_EmptyE)
next
  case (Class p)
  then show ?case
    by (auto elim: matches_NeverE matches_EmptyE matches_ClassE intro: m_empty m_class)
next
  case (Cat r s)
  show ?case
  proof
    assume a: "matches (deriv c (Cat r s)) w"
    have left: "matches (Cat r s) (c # w)" if "matches (Cat (deriv c r) s) w"
    proof -
      from that obtain u v where "w = u @ v" "matches (deriv c r) u" "matches s v"
        by (auto elim: matches_CatE)
      then have "matches r (c # u)" "matches s v" "c # w = (c # u) @ v"
        using Cat.IH(1) by simp_all
      then show ?thesis using m_cat by metis
    qed
    have right: "matches (Cat r s) (c # w)" if "nullable r" "matches (deriv c s) w"
    proof -
      have "matches r []" "matches s (c # w)"
        using that Cat.IH(2) nullable_matches by simp_all
      then have "matches (Cat r s) ([] @ (c # w))" by (rule m_cat)
      then show ?thesis by simp
    qed
    show "matches (Cat r s) (c # w)"
      using a left right by (auto split: if_splits elim: matches_OrE)
  next
    assume "matches (Cat r s) (c # w)"
    then obtain u v where uv: "c # w = u @ v" "matches r u" "matches s v"
      by (auto elim: matches_CatE)
    show "matches (deriv c (Cat r s)) w"
    proof (cases u)
      case Nil
      then have "nullable r" "matches (deriv c s) w"
        using uv Cat.IH(2) nullable_matches by simp_all
      then show ?thesis by (simp add: m_or2)
    next
      case (Cons a u')
      then have "a = c" "w = u' @ v" "matches (deriv c r) u'"
        using uv Cat.IH(1) by simp_all
      then have "matches (Cat (deriv c r) s) w" using uv(3) m_cat by metis
      then show ?thesis by (simp add: m_or1)
    qed
  qed
next
  case (Or r s)
  then show ?case by (auto intro: m_or1 m_or2 elim: matches_OrE)
next
  case (Star r)
  show ?case
  proof
    assume "matches (deriv c (Star r)) w"
    then obtain u v where "w = u @ v" "matches (deriv c r) u" "matches (Star r) v"
      by (auto elim: matches_CatE)
    then have "matches r (c # u)" "matches (Star r) v" "c # w = (c # u) @ v"
      using Star.IH by simp_all
    then show "matches (Star r) (c # w)" using m_star by metis
  next
    assume "matches (Star r) (c # w)"
    then obtain u v where uv: "c # w = u @ v" "u \<noteq> []" "matches r u" "matches (Star r) v"
      using star_first_piece [of "Star r" "c # w" r] by auto
    then obtain u' where "u = c # u'" "w = u' @ v" by (cases u) auto
    then have "matches (deriv c r) u'" "w = u' @ v" using uv(3) Star.IH by simp_all
    then have "matches (Cat (deriv c r) (Star r)) w" using uv(4) m_cat by metis
    then show "matches (deriv c (Star r)) w" by simp
  qed
qed

lemma regexTest_matches: "regexTest r w \<longleftrightarrow> matches r w"
  unfolding regexTest_def
  by (induction w arbitrary: r) (simp_all add: nullable_matches matches_deriv)

section \<open>The URL check on the two creation paths\<close>

lemma runValidation_errors_Cons:
  "fst (runValidation ((f, steps) # cs) obj) =
     map (Pair f) (fst (runChain steps (obj f))) @
     fst (runValidation cs (obj(f := snd (runChain steps (obj f)))))"
  by (simp add: split_def Let_def)

lemma url_error_listed:
  assumes "b ''url'' = Some u" "trim u \<noteq> []" "\<not> regexTest urlRegex (trim u)"
  shows "(''url'', ''Invalid URL format'') \<in> set (fst (runValidation createUseCaseValidation b))"
  unfolding createUseCaseValidation_def
  using assms
  by (simp add: runValidation_errors_Cons runChain_url del: runChain.simps runValidation.simps(2))

lemma post_validation_fails:
  assumes "httpMethod req = ''POST''" and "path req = [''api'', ''use-cases'']"
    and "API_KEY = [] \<or> headers req ''x-api-key'' = Some API_KEY"
    and "fst (runValidation createUseCaseValidation (body req)) \<noteq> []"
  shows "app API_KEY now req st =
           ((400, ErrorBody ''Validation failed'' ''VALIDATION_ERROR''
                    (Some (fst (runValidation createUseCaseValidation (body req))))), st)"
  using post_passes_auth [OF assms(1-3), of now st] assms(4)
  by (simp add: handleValidationErrors_def split_def Let_def)

lemma normalizeValue_truthy:
  "truthy (normalizeValue v) \<longleftrightarrow> trim (toStr v) \<noteq> []"
  by (cases v) (simp_all add: normalizeValue_def Let_def)

lemma processRow_inserted:
  assumes "truthy (normalizeValue (row ''Use Case''))"
    and "truthy (normalizeValue (row ''Concept description''))"
    and "\<not> nameTaken st (toStr (normalizeValue (row ''Use Case'')))"
  shows "processRow now i row (stats, warnings, st) =
           (let urlN = normalizeValue (row ''URL'');
                r = \<lparr>useCase = toStr (normalizeValue (row ''Use Case'')),
                     conceptDescription = toStr (normalizeValue (row ''Concept description'')),
                     concreteImplementation = normalizeValue (row ''Concrete implementation''),
                     benefit = normalizeValue (row ''Benefit''),
                     industry = normalizeValue (row ''Industry''),
                     department = normalizeValue (row ''Department''),
                     valueChainStep = normalizeValue (row ''Value Chain Step''),
                     url = urlN,
                     rowId = nextId st, createdAt = now, updatedAt = now\<rparr>
            in (stats\<lparr>inserted := inserted stats + 1\<rparr>,
                (if truthy urlN \<and> \<not> isValidUrl (toStr urlN)
                 then warnings @ [(i + 2, toStr urlN)] else warnings),
                st\<lparr>rows := rows st @ [r], nextId := Suc (nextId st)\<rparr>))"
proof -
  have "findFirst \<lparr>w_columns = [(ColUseCase, EqualsInsensitive (toStr (normalizeValue (row ''Use Case''))))],
           w_OR = None\<rparr> st = None"
    using assms(3) by (simp add: findFirst_name_None)
  then show ?thesis
    using assms(1,2) by (simp add: processRow_def create_def Let_def)
qed

lemma processRow_duplicate:
  assumes "truthy (normalizeValue (row ''Use Case''))"
    and "truthy (normalizeValue (row ''Concept description''))"
    and "nameTaken st (toStr (normalizeValue (row ''Use Case'')))"
  shows "processRow now i row (stats, warnings, st) =
           (stats\<lparr>duplicates := duplicates stats + 1\<rparr>, warnings, st)"
proof -
  have "findFirst \<lparr>w_columns = [(ColUseCase, EqualsInsensitive (toStr (normalizeValue (row ''Use Case''))))],
           w_OR = None\<rparr> st \<noteq> None"
    using assms(3) by (simp add: findFirst_name_None)
  then show ?thesis
    using assms(1,2) by (auto simp: processRow_def Let_def)
qed

lemma processRow_skipped:
  assumes "\<not> (truthy (normalizeValue (row ''Use Case'')) \<and>
              truthy (normalizeValue (row ''Concept description'')))"
  shows "\<exists>reason. processRow now i row (stats, warnings, st) =
           (stats\<lparr>skipped := skipped stats + 1,
                  errorDetails := errorDetails stats @ [(i + 2, reason)]\<rparr>, warnings, st)"
  using assms by (auto simp: processRow_def Let_def)


text \<open>
  Claim C2, as stated, fails on the POST path: the URL \<^verbatim>\<open>not a url\<close> does not match the
  pattern, and a POST that is valid but for this URL is answered 400 and stores nothing.
\<close>

theorem url_invalid_post_rejected:
  "\<not> regexTest urlRegex ''not a url'' \<and>
   app ''demo-api-key'' 5 (samplePost\<lparr>body := sampleBody(''url'' \<mapsto> ''not a url'')\<rparr>) emptyStore =
     ((400, ErrorBody ''Validation failed'' ''VALIDATION_ERROR''
              (Some [(''url'', ''Invalid URL format'')])), emptyStore)"
proof -
  let ?req = "samplePost\<lparr>body := sampleBody(''url'' \<mapsto> ''not a url'')\<rparr>"
  have t: "trim ''not a url'' = ''not a url''"
    by (simp add: trim_def isWhitespace_def)
  have errs: "fst (runValidation createUseCaseValidation (body ?req)) =
                [(''url'', ''Invalid URL format'')]"
    unfolding createUseCaseValidation_def
    by (simp add: runValidation_errors_Cons runChain_required runChain_optional runChain_url
          sampleBody_def sample_trim t not_a_url
          del: runChain.simps runValidation.simps(2))
  have h1: "httpMethod ?req = ''POST''" and h2: "path ?req = [''api'', ''use-cases'']"
    and h3: "''demo-api-key'' = [] \<or> headers ?req ''x-api-key'' = Some ''demo-api-key''"
    by (simp_all add: samplePost_def)
  have h4: "fst (runValidation createUseCaseValidation (body ?req)) \<noteq> []"
    using errs by simp
  show ?thesis
    using post_validation_fails [OF h1 h2 h3 h4, where now = 5 and st = emptyStore] errs not_a_url
    by simp
qed

text \<open>
  Claim C2, amended. The import script stores the normalized URL of a record it inserts
  whatever the pattern says, and writes a warning exactly when the URL is present and does
  not match. The POST route answers 400 with a validation error for the field \<^verbatim>\<open>url\<close>, and
  stores nothing, when the URL is non-empty after trimming and does not match the pattern.
  When the URL is absent, empty after trimming, or matches the pattern, and the other
  fields are within their length bounds and the name is new, the POST route answers 201
  and stores the trimmed URL (\<^verbatim>\<open>null\<close> when the field is absent). On both paths the name of
  the record is one the database can compare, and matches no stored name.
\<close>

theorem url_handling:
  "(truthy (normalizeValue (row ''Use Case'')) \<and>
    truthy (normalizeValue (row ''Concept description'')) \<and>
    completePattern (toStr (normalizeValue (row ''Use Case''))) \<and>
    \<not> nameTaken st (toStr (normalizeValue (row ''Use Case''))) \<longrightarrow>
      (\<exists>stats' r.
         processRow now i row (stats, warnings, st) =
           (stats',
            (if truthy (normalizeValue (row ''URL'')) \<and>
                \<not> regexTest urlRegex (toStr (normalizeValue (row ''URL'')))
             then warnings @ [(i + 2, toStr (normalizeValue (row ''URL'')))] else warnings),
            st\<lparr>rows := rows st @ [r], nextId := Suc (nextId st)\<rparr>) \<and>
         url r = normalizeValue (row ''URL'') \<and> inserted stats' = inserted stats + 1)) \<and>
   (httpMethod req = ''POST'' \<and> path req = [''api'', ''use-cases''] \<and>
    (API_KEY = [] \<or> headers req ''x-api-key'' = Some API_KEY) \<and>
    body req ''url'' = Some u \<and> trim u \<noteq> [] \<and> \<not> regexTest urlRegex (trim u) \<longrightarrow>
      (\<exists>errs.
         app API_KEY now req st =
           ((400, ErrorBody ''Validation failed'' ''VALIDATION_ERROR'' (Some errs)), st) \<and>
         (''url'', ''Invalid URL format'') \<in> set errs)) \<and>
   (httpMethod req = ''POST'' \<and> path req = [''api'', ''use-cases''] \<and>
    (API_KEY = [] \<or> headers req ''x-api-key'' = Some API_KEY) \<and>
    3 \<le> length (trim (toStr (body req ''useCase''))) \<and>
    length (trim (toStr (body req ''useCase''))) \<le> 500 \<and>
    10 \<le> length (trim (toStr (body req ''conceptDescription''))) \<and>
    length (trim (toStr (body req ''conceptDescription''))) \<le> 10000 \<and>
    length (trim (toStr (body req ''concreteImplementation''))) \<le> 10000 \<and>
    length (trim (toStr (body req ''benefit''))) \<le> 5000 \<and>
    length (trim (toStr (body req ''industry''))) \<le> 200 \<and>
    length (trim (toStr (body req ''department''))) \<le> 200 \<and>
    length (trim (toStr (body req ''valueChainStep''))) \<le> 200 \<and>
    (body req ''url'' = None \<or> trim (toStr (body req ''url'')) = [] \<or>
     regexTest urlRegex (trim (toStr (body req ''url'')))) \<and>
    completePattern (trim (toStr (body req ''useCase''))) \<and>
    \<not> nameTaken st (trim (toStr (body req ''useCase''))) \<longrightarrow>
      (\<exists>r. app API_KEY now req st =
              ((201, CreatedBody ''Use case created successfully'' r),
               st\<lparr>rows := rows st @ [r], nextId := Suc (nextId st)\<rparr>) \<and>
           url r = map_option trim (body req ''url'')))"
proof (intro conjI impI)
  assume a: "truthy (normalizeValue (row ''Use Case'')) \<and>
    truthy (normalizeValue (row ''Concept description'')) \<and>
    completePattern (toStr (normalizeValue (row ''Use Case''))) \<and>
    \<not> nameTaken st (toStr (normalizeValue (row ''Use Case'')))"
  show "\<exists>stats' r.
         processRow now i row (stats, warnings, st) =
           (stats',
            (if truthy (normalizeValue (row ''URL'')) \<and>
                \<not> regexTest urlRegex (toStr (normalizeValue (row ''URL'')))
             then warnings @ [(i + 2, toStr (normalizeValue (row ''URL'')))] else warnings),
            st\<lparr>rows := rows st @ [r], nextId := Suc (nextId st)\<rparr>) \<and>
         url r = normalizeValue (row ''URL'') \<and> inserted stats' = inserted stats + 1"
  proof -
    define r where "r = \<lparr>useCase = toStr (normalizeValue (row ''Use Case'')),
                     conceptDescription = toStr (normalizeValue (row ''Concept description'')),
                     concreteImplementation = normalizeValue (row ''Concrete implementation''),
                     benefit = normalizeValue (row ''Benefit''),
                     industry = normalizeValue (row ''Industry''),
                     department = normalizeValue (row ''Department''),
                     valueChainStep = normalizeValue (row ''Value Chain Step''),
                     url = normalizeValue (row ''URL''),
                     rowId = nextId st, createdAt = now, updatedAt = now\<rparr>"
    have "processRow now i row (stats, warnings, st) =
            (stats\<lparr>inserted := inserted stats + 1\<rparr>,
             (if truthy (normalizeValue (row ''URL'')) \<and>
                 \<not> regexTest urlRegex (toStr (normalizeValue (row ''URL'')))
              then warnings @ [(i + 2, toStr (normalizeValue (row ''URL'')))] else warnings),
             st\<lparr>rows := rows st @ [r], nextId := Suc (nextId st)\<rparr>)"
      using a processRow_inserted [of row st now i stats warnings]
      by (simp add: Let_def r_def isValidUrl_def)
    moreover have "url r = normalizeValue (row ''URL'')"
      by (simp add: r_def)
    moreover have "inserted (stats\<lparr>inserted := inserted stats + 1\<rparr>) = inserted stats + 1"
      by simp
    ultimately show ?thesis by blast
  qed
next
  assume a: "httpMethod req = ''POST'' \<and> path req = [''api'', ''use-cases''] \<and>
    (API_KEY = [] \<or> headers req ''x-api-key'' = Some API_KEY) \<and>
    body req ''url'' = Some u \<and> trim u \<noteq> [] \<and> \<not> regexTest urlRegex (trim u)"
  then have listed: "(''url'', ''Invalid URL format'')
                       \<in> set (fst (runValidation createUseCaseValidation (body req)))"
    using url_error_listed by blast
  then have "fst (runValidation createUseCaseValidation (body req)) \<noteq> []"
    by auto
  then show "\<exists>errs.
         app API_KEY now req st =
           ((400, ErrorBody ''Validation failed'' ''VALIDATION_ERROR'' (Some errs)), st) \<and>
         (''url'', ''Invalid URL format'') \<in> set errs"
    using a listed post_validation_fails [of req API_KEY now st] by blast
next
  assume a: "httpMethod req = ''POST'' \<and> path req = [''api'', ''use-cases''] \<and>
    (API_KEY = [] \<or> headers req ''x-api-key'' = Some API_KEY) \<and>
    3 \<le> length (trim (toStr (body req ''useCase''))) \<and>
    length (trim (toStr (body req ''useCase''))) \<le> 500 \<and>
    10 \<le> length (trim (toStr (body req ''conceptDescription''))) \<and>
    length (trim (toStr (body req ''conceptDescription''))) \<le> 10000 \<and>
    length (trim (toStr (body req ''concreteImplementation''))) \<le> 10000 \<and>
    length (trim (toStr (body req ''benefit''))) \<le> 5000 \<and>
    length (trim (toStr (body req ''industry''))) \<le> 200 \<and>
    length (trim (toStr (body req ''department''))) \<le> 200 \<and>
    length (trim (toStr (body req ''valueChainStep''))) \<le> 200 \<and>
    (body req ''url'' = None \<or> trim (toStr (body req ''url'')) = [] \<or>
     regexTest urlRegex (trim (toStr (body req ''url'')))) \<and>
    completePattern (trim (toStr (body req ''useCase''))) \<and>
    \<not> nameTaken st (trim (toStr (body req ''useCase'')))"
  have absent: "body req ''url'' = None \<Longrightarrow> trim (toStr (body req ''url'')) = []"
    by (simp add: trim_def)
  have "fst (runValidation createUseCaseValidation (body req)) = []"
    unfolding create_validation_errors using a absent by blast
  then have valid: "\<exists>b. handleValidationErrors createUseCaseValidation (body req) = Inr b"
    by (simp add: create_validation_Inr)
  define r where "r = \<lparr>useCase = trim (toStr (body req ''useCase'')),
                   conceptDescription = trim (toStr (body req ''conceptDescription'')),
                   concreteImplementation =
                     map_option trim (body req ''concreteImplementation''),
                   benefit = map_option trim (body req ''benefit''),
                   industry = map_option trim (body req ''industry''),
                   department = map_option trim (body req ''department''),
                   valueChainStep = map_option trim (body req ''valueChainStep''),
                   url = map_option trim (body req ''url''),
                   rowId = nextId st, createdAt = now, updatedAt = now\<rparr>"
  have "app API_KEY now req st =
          ((201, CreatedBody ''Use case created successfully'' r),
           st\<lparr>rows := rows st @ [r], nextId := Suc (nextId st)\<rparr>)"
    using a valid post_created [of req API_KEY st now] by (simp add: Let_def r_def)
  moreover have "url r = map_option trim (body req ''url'')"
    by (simp add: r_def)
  ultimately show "\<exists>r. app API_KEY now req st =
              ((201, CreatedBody ''Use case created successfully'' r),
               st\<lparr>rows := rows st @ [r], nextId := Suc (nextId st)\<rparr>) \<and>
           url r = map_option trim (body req ''url'')"
    by blast
qed


lemma sample_url_trim:
  "trim ''not a url'' = ''not a url''"
  "trim ''Demand Forecasting'' = ''Demand Forecasting''"
  by (simp_all add: trim_def isWhitespace_def)

lemma sample_new_name:
  "completePattern ''Demand Forecasting''"
  "\<not> nameTaken sampleStore ''Demand Forecasting''"
  by code_simp+

theorem url_handling_witness:
  "(\<exists>stats' r.
      processRow 100 0 (sampleRecord ''Demand Forecasting'' ''not a url'')
          (initialStats 1, [], sampleStore) =
        (stats', [(2, ''not a url'')], sampleStore\<lparr>rows := [sampleRow, r], nextId := 3\<rparr>) \<and>
      url r = Some ''not a url'') \<and>
   (\<exists>errs.
      app ''demo-api-key'' 5 (samplePost\<lparr>body := sampleBody(''url'' \<mapsto> ''not a url'')\<rparr>)
          sampleStore =
        ((400, ErrorBody ''Validation failed'' ''VALIDATION_ERROR'' (Some errs)), sampleStore) \<and>
      (''url'', ''Invalid URL format'') \<in> set errs) \<and>
   (\<exists>r.
      app ''demo-api-key'' 7 samplePostFull sampleStore =
        ((201, CreatedBody ''Use case created successfully'' r),
         sampleStore\<lparr>rows := [sampleRow, r], nextId := 3\<rparr>) \<and>
      url r = Some ''example.com/docs'') \<and>
   (\<exists>r.
      app ''demo-api-key'' 7 (samplePostFull\<lparr>body := sampleBodyFull(''url'' := None)\<rparr>)
          sampleStore =
        ((201, CreatedBody ''Use case created successfully'' r),
         sampleStore\<lparr>rows := [sampleRow, r], nextId := 3\<rparr>) \<and>
      url r = None)"
proof -
  let ?row = "sampleRecord ''Demand Forecasting'' ''not a url''"
  let ?bad = "samplePost\<lparr>body := sampleBody(''url'' \<mapsto> ''not a url'')\<rparr>"
  let ?none = "samplePostFull\<lparr>body := sampleBodyFull(''url'' := None)\<rparr>"
  have n: "normalizeValue (?row ''Use Case'') = Some ''Demand Forecasting''"
    "normalizeValue (?row ''Concept description'') = Some ''Use ML to predict failures''"
    "normalizeValue (?row ''URL'') = Some ''not a url''"
    by (simp_all add: normalizeValue_def sampleRecord_def sample_trim sample_url_trim)
  have a: "truthy (normalizeValue (?row ''Use Case'')) \<and>
           truthy (normalizeValue (?row ''Concept description'')) \<and>
           completePattern (toStr (normalizeValue (?row ''Use Case''))) \<and>
           \<not> nameTaken sampleStore (toStr (normalizeValue (?row ''Use Case'')))"
    by (simp add: n sample_new_name)
  have b: "httpMethod ?bad = ''POST'' \<and> path ?bad = [''api'', ''use-cases''] \<and>
           (''demo-api-key'' = [] \<or> headers ?bad ''x-api-key'' = Some ''demo-api-key'') \<and>
           body ?bad ''url'' = Some ''not a url'' \<and> trim ''not a url'' \<noteq> [] \<and>
           \<not> regexTest urlRegex (trim ''not a url'')"
    by (simp add: samplePost_def sample_url_trim not_a_url)
  have t: "trim [] = []"
    by (simp add: trim_def)
  have c: "httpMethod samplePostFull = ''POST'' \<and> path samplePostFull = [''api'', ''use-cases''] \<and>
    (''demo-api-key'' = [] \<or> headers samplePostFull ''x-api-key'' = Some ''demo-api-key'') \<and>
    3 \<le> length (trim (toStr (body samplePostFull ''useCase''))) \<and>
    length (trim (toStr (body samplePostFull ''useCase''))) \<le> 500 \<and>
    10 \<le> length (trim (toStr (body samplePostFull ''conceptDescription''))) \<and>
    length (trim (toStr (body samplePostFull ''conceptDescription''))) \<le> 10000 \<and>
    length (trim (toStr (body samplePostFull ''concreteImplementation''))) \<le> 10000 \<and>
    length (trim (toStr (body samplePostFull ''benefit''))) \<le> 5000 \<and>
    length (trim (toStr (body samplePostFull ''industry''))) \<le> 200 \<and>
    length (trim (toStr (body samplePostFull ''department''))) \<le> 200 \<and>
    length (trim (toStr (body samplePostFull ''valueChainStep''))) \<le> 200 \<and>
    (body samplePostFull ''url'' = None \<or> trim (toStr (body samplePostFull ''url'')) = [] \<or>
     regexTest urlRegex (trim (toStr (body samplePostFull ''url'')))) \<and>
    completePattern (trim (toStr (body samplePostFull ''useCase''))) \<and>
    \<not> nameTaken sampleStore (trim (toStr (body samplePostFull ''useCase'')))"
    by (simp add: samplePostFull_def sampleBodyFull_def sample_full_trim t example_url
          sample_new_name)
  have d: "httpMethod ?none = ''POST'' \<and> path ?none = [''api'', ''use-cases''] \<and>
    (''demo-api-key'' = [] \<or> headers ?none ''x-api-key'' = Some ''demo-api-key'') \<and>
    3 \<le> length (trim (toStr (body ?none ''useCase''))) \<and>
    length (trim (toStr (body ?none ''useCase''))) \<le> 500 \<and>
    10 \<le> length (trim (toStr (body ?none ''conceptDescription''))) \<and>
    length (trim (toStr (body ?none ''conceptDescription''))) \<le> 10000 \<and>
    length (trim (toStr (body ?none ''concreteImplementation''))) \<le> 10000 \<and>
    length (trim (toStr (body ?none ''benefit''))) \<le> 5000 \<and>
    length (trim (toStr (body ?none ''industry''))) \<le> 200 \<and>
    length (trim (toStr (body ?none ''department''))) \<le> 200 \<and>
    length (trim (toStr (body ?none ''valueChainStep''))) \<le> 200 \<and>
    (body ?none ''url'' = None \<or> trim (toStr (body ?none ''url'')) = [] \<or>
     regexTest urlRegex (trim (toStr (body ?none ''url'')))) \<and>
    completePattern (trim (toStr (body ?none ''useCase''))) \<and>
    \<not> nameTaken sampleStore (trim (toStr (body ?none ''useCase'')))"
    by (simp add: samplePostFull_def sampleBodyFull_def sample_full_trim t sample_new_name)
  note A = url_handling [where row = ?row and st = sampleStore and now = 100 and i = 0
      and stats = "initialStats 1" and warnings = "[]", THEN conjunct1, rule_format, OF a]
  note B = url_handling [where req = ?bad and API_KEY = "''demo-api-key''" and u = "''not a url''"
      and st = sampleStore and now = 5, THEN conjunct2, THEN conjunct1, rule_format, OF b]
  note C = url_handling [where req = samplePostFull and API_KEY = "''demo-api-key''"
      and st = sampleStore and now = 7, THEN conjunct2, THEN conjunct2, rule_format, OF c]
  note D = url_handling [where req = ?none and API_KEY = "''demo-api-key''"
      and st = sampleStore and now = 7, THEN conjunct2, THEN conjunct2, rule_format, OF d]
  have s: "rows sampleStore = [sampleRow]" "nextId sampleStore = 2"
    by (simp_all add: sampleStore_def)
  have A': "\<exists>stats' r.
      processRow 100 0 ?row (initialStats 1, [], sampleStore) =
        (stats', [(2, ''not a url'')], sampleStore\<lparr>rows := [sampleRow, r], nextId := 3\<rparr>) \<and>
      url r = Some ''not a url''"
    using A by (simp add: n not_a_url s numeral_2_eq_2 numeral_3_eq_3) blast
  have C': "\<exists>r.
      app ''demo-api-key'' 7 samplePostFull sampleStore =
        ((201, CreatedBody ''Use case created successfully'' r),
         sampleStore\<lparr>rows := [sampleRow, r], nextId := 3\<rparr>) \<and>
      url r = Some ''example.com/docs''"
    using C by (simp add: s sampleBodyFull_def samplePostFull_def sample_full_trim)
  have D': "\<exists>r.
      app ''demo-api-key'' 7 ?none sampleStore =
        ((201, CreatedBody ''Use case created successfully'' r),
         sampleStore\<lparr>rows := [sampleRow, r], nextId := 3\<rparr>) \<and>
      url r = None"
    using D by (simp add: s sampleBodyFull_def samplePostFull_def)
  show ?thesis using A' B C' D' by blast
qed


section \<open>Listing and pagination\<close>

lemma runChain_int:
  "runChain [Optional, IsInt mn mx msg] v =
     ((case v of None \<Rightarrow> [] | Some s \<Rightarrow> if isInt mn mx s then [] else [msg]), v)"
  by (cases v) (simp_all add: Let_def)

lemma int_ok:
  "fst (runChain [Optional, IsInt mn mx msg] v) = [] \<longleftrightarrow> (v = None \<or> isInt mn mx (toStr v))"
  by (cases v) (simp_all add: runChain_int del: runChain.simps)

lemma pagination_validation_errors:
  "fst (runValidation paginationValidation q) = [] \<longleftrightarrow>
     (q ''page'' = None \<or> isInt (Some 1) None (toStr (q ''page''))) \<and>
     (q ''limit'' = None \<or> isInt (Some 1) (Some 100) (toStr (q ''limit''))) \<and>
     length (trim (toStr (q ''industry''))) \<le> 200 \<and>
     length (trim (toStr (q ''valueChainStep''))) \<le> 200 \<and>
     length (trim (toStr (q ''department''))) \<le> 200 \<and>
     length (trim (toStr (q ''search''))) \<le> 500"
  unfolding paginationValidation_def
  by (simp add: runValidation_ok_Cons int_ok optional_ok
        del: runChain.simps runValidation.simps(2))

lemma pagination_validation_fields:
  "snd (runValidation paginationValidation q) =
     q(''industry'' := map_option trim (q ''industry''),
       ''valueChainStep'' := map_option trim (q ''valueChainStep''),
       ''department'' := map_option trim (q ''department''),
       ''search'' := map_option trim (q ''search''))"
  unfolding paginationValidation_def
  by (simp add: runChain_int runChain_optional split_def Let_def del: runChain.simps)

lemma pagination_validation_Inr:
  "handleValidationErrors paginationValidation q = Inr q' \<longleftrightarrow>
     fst (runValidation paginationValidation q) = [] \<and>
     q' = snd (runValidation paginationValidation q)"
  by (auto simp: handleValidationErrors_def split_def Let_def)

lemma parse_defaults: "parseInt ''1'' = Some 1" "parseInt ''20'' = Some 20"
  by code_simp+

lemma valid_page:
  assumes "fst (runValidation paginationValidation q) = []"
  shows "\<exists>pageN. parseInt (orDefault (q ''page'') ''1'') = Some pageN \<and> 1 \<le> pageN"
proof (cases "q ''page''")
  case None
  then show ?thesis by (simp add: parse_defaults)
next
  case (Some p)
  then have "isInt (Some 1) None p" using assms by (simp add: pagination_validation_errors)
  then show ?thesis using Some isInt_parseInt [of "Some 1" None p] by auto
qed

lemma valid_limit:
  assumes "fst (runValidation paginationValidation q) = []"
  shows "\<exists>limitN. parseInt (orDefault (q ''limit'') ''20'') = Some limitN \<and> 1 \<le> limitN \<and>
           limitN \<le> 100"
proof (cases "q ''limit''")
  case None
  then show ?thesis by (simp add: parse_defaults)
next
  case (Some p)
  then have "isInt (Some 1) (Some 100) p" using assms by (simp add: pagination_validation_errors)
  then show ?thesis using Some isInt_parseInt [of "Some 1" "Some 100" p] by auto
qed

lemma list_passes_auth:
  assumes "httpMethod req = ''GET''" "path req = [''api'', ''use-cases'']"
  shows "app API_KEY now req st =
           (case handleValidationErrors paginationValidation (query req) of
              Inl e \<Rightarrow> (errorHandler e, st)
            | Inr q \<Rightarrow> (listUseCases q st, st))"
  using assms by (simp add: app_def routes_def apiKeyAuthMiddleware_def)

lemma list_response:
  assumes "httpMethod req = ''GET''" "path req = [''api'', ''use-cases'']"
    and "fst (runValidation paginationValidation (query req)) = []"
    and "parseInt (orDefault (query req ''page'') ''1'') = Some pageN"
    and "parseInt (orDefault (query req ''limit'') ''20'') = Some limitN"
    and "1 \<le> pageN" "1 \<le> limitN"
  shows "app API_KEY now req st =
           ((200,
             ListBody
               \<lparr>data = take (nat limitN) (drop (nat ((pageN - 1) * limitN))
                         (orderByCreatedAtDesc (matchingRows (query req) st))),
                pagination =
                  \<lparr>page = pageN, limit = limitN,
                   total = int (length (matchingRows (query req) st)),
                   totalPages =
                     \<lceil>real_of_int (int (length (matchingRows (query req) st))) / real_of_int limitN\<rceil>,
                   hasNext =
                     (pageN < \<lceil>real_of_int (int (length (matchingRows (query req) st)))
                                / real_of_int limitN\<rceil>),
                   hasPrev = (pageN > 1)\<rparr>,
                filters =
                  \<lparr>f_industry = map_option trim (query req ''industry''),
                   f_valueChainStep = map_option trim (query req ''valueChainStep''),
                   f_department = map_option trim (query req ''department''),
                   f_search = map_option trim (query req ''search'')\<rparr>\<rparr>), st)"
proof -
  define q' where "q' = snd (runValidation paginationValidation (query req))"
  have valid: "handleValidationErrors paginationValidation (query req) = Inr q'"
    using assms(3) by (simp add: pagination_validation_Inr q'_def)
  have f: "q' ''page'' = query req ''page''" "q' ''limit'' = query req ''limit''"
    "q' ''industry'' = map_option trim (query req ''industry'')"
    "q' ''valueChainStep'' = map_option trim (query req ''valueChainStep'')"
    "q' ''department'' = map_option trim (query req ''department'')"
    "q' ''search'' = map_option trim (query req ''search'')"
    unfolding q'_def pagination_validation_fields by simp_all
  show ?thesis
    using assms(4-7)
    by (simp add: list_passes_auth [OF assms(1,2)] valid listUseCases_def f Let_def
          findMany_def count_def matchingRows_def queryWhere_def)
qed


lemma real_le_mult:
  "real_of_int a \<le> real_of_int b * real_of_int c \<longleftrightarrow> a \<le> b * c"
  by (simp flip: of_int_mult)

lemma real_less_mult:
  "real_of_int b * real_of_int c < real_of_int a \<longleftrightarrow> b * c < a"
  by (simp flip: of_int_mult)



lemma ceiling_pages:
  assumes "0 < (l::int)"
  shows "\<lceil>real_of_int t / real_of_int l\<rceil> = (t + l - 1) div l"
proof -
  define z where "z = (t + l - 1) div l"
  define m where "m = (t + l - 1) mod l"
  have m: "0 \<le> m" "m < l" using assms by (simp_all add: m_def)
  have e: "t + l - 1 = z * l + m" by (simp add: z_def m_def)
  have up: "t \<le> z * l" using e m by linarith
  have "z * l - l < t" using e m by linarith
  then have low: "(z - 1) * l < t" by (simp add: algebra_simps)
  have "real_of_int t / real_of_int l \<le> real_of_int z"
    using assms up by (simp add: pos_divide_le_eq real_le_mult)
  moreover have "real_of_int z - 1 < real_of_int t / real_of_int l"
  proof -
    have "real_of_int (z - 1) * real_of_int l < real_of_int t"
      using low by (simp only: real_less_mult)
    then have "real_of_int (z - 1) < real_of_int t / real_of_int l"
      using assms by (simp add: pos_less_divide_eq)
    then show ?thesis by simp
  qed
  ultimately have "\<lceil>real_of_int t / real_of_int l\<rceil> = z"
    by (intro ceiling_unique)
  then show ?thesis by (simp add: z_def)
qed











section \<open>Filters of the list route\<close>

lemma equalsIfSet_holds:
  assumes "plainText (trim (toStr p))"
  shows "list_all (condHolds r) (equalsIfSet c (map_option trim p)) \<longleftrightarrow>
           paramEquals p (columnOf c r)"
  using assms
  by (cases p; cases "columnOf c r")
     (simp_all add: equalsIfSet_def condHolds_def paramEquals_def equalsField_def
        ilike_plain_equals)

lemma search_holds:
  assumes "plainText (trim (toStr p))"
  shows "(case w_OR (buildWhere i v d (map_option trim p)) of
            None \<Rightarrow> True | Some cs \<Rightarrow> list_ex (condHolds r) cs) \<longleftrightarrow> paramOccurs p r"
  using assms
  by (cases p; cases "benefit r")
     (simp_all add: buildWhere_def condHolds_def paramOccurs_def occursInRow_def occursIn_def
        ilike_plain_contains [unfolded append_Cons append_Nil])

lemma rowMatches_selects:
  assumes "plainText (trim (toStr (q ''industry'')))"
    and "plainText (trim (toStr (q ''valueChainStep'')))"
    and "plainText (trim (toStr (q ''department'')))"
    and "plainText (trim (toStr (q ''search'')))"
  shows "rowMatches (queryWhere q) r \<longleftrightarrow> selects q r"
proof -
  have "list_all (condHolds r) (w_columns (queryWhere q)) \<longleftrightarrow>
          paramEquals (q ''industry'') (industry r) \<and>
          paramEquals (q ''valueChainStep'') (valueChainStep r) \<and>
          paramEquals (q ''department'') (department r)"
    using equalsIfSet_holds [OF assms(1), of r ColIndustry]
      equalsIfSet_holds [OF assms(2), of r ColValueChainStep]
      equalsIfSet_holds [OF assms(3), of r ColDepartment]
    by (simp add: queryWhere_def buildWhere_def)
  then show ?thesis
    using search_holds [OF assms(4), where i = "map_option trim (q ''industry'')"
        and v = "map_option trim (q ''valueChainStep'')"
        and d = "map_option trim (q ''department'')" and r = r]
    by (simp add: rowMatches_def selects_def queryWhere_def)
qed

lemma matchingRows_selects:
  assumes "plainText (trim (toStr (q ''industry'')))"
    and "plainText (trim (toStr (q ''valueChainStep'')))"
    and "plainText (trim (toStr (q ''department'')))"
    and "plainText (trim (toStr (q ''search'')))"
  shows "matchingRows q st = filter (selects q) (rows st)"
  by (simp add: matchingRows_def rowMatches_selects [OF assms] cong: filter_cong)

lemma occursIn_iff:
  "occursIn x field \<longleftrightarrow> (\<exists>v u w. field = Some v \<and> toLowerCase v = u @ toLowerCase x @ w)"
  by (cases field) (simp_all add: occursIn_def includesStr_iff)

lemma plainText_absent: "plainText (trim (toStr None))"
  by (simp add: plainText_def trim_def)


text \<open>
  Claim C5, as stated, fails for a parameter that is supplied but empty: with
  \<^verbatim>\<open>?industry=\<close> the handler sets no condition and returns the row of industry
  \<^verbatim>\<open>Automotive\<close>, which does not equal the empty parameter.
\<close>

theorem empty_filter_ignored:
  "app ''demo-api-key'' 6 (sampleGet [''api'', ''use-cases''] [''industry'' \<mapsto> []]) sampleStoreAuto =
     ((200,
       ListBody
         \<lparr>data = [sampleRowAuto],
          pagination =
            \<lparr>page = 1, limit = 20, total = 1, totalPages = 1, hasNext = False, hasPrev = False\<rparr>,
          filters =
            \<lparr>f_industry = Some [], f_valueChainStep = None, f_department = None,
             f_search = None\<rparr>\<rparr>), sampleStoreAuto) \<and>
   \<not> selectsAsStated [''industry'' \<mapsto> []] sampleRowAuto"
proof -
  let ?req = "sampleGet [''api'', ''use-cases''] [''industry'' \<mapsto> []]"
  have h1: "httpMethod ?req = ''GET''" and h2: "path ?req = [''api'', ''use-cases'']"
    by (simp_all add: sampleGet_def)
  have h3: "fst (runValidation paginationValidation (query ?req)) = []"
    by (simp add: pagination_validation_errors sampleGet_def)
  have h4: "parseInt (orDefault (query ?req ''page'') ''1'') = Some 1"
    and h5: "parseInt (orDefault (query ?req ''limit'') ''20'') = Some 20"
    by (simp_all add: sampleGet_def parse_defaults)
  have e: "trim [] = []"
    by (simp add: trim_def)
  have p: "plainText (trim (toStr ([''industry'' \<mapsto> []] ''industry'')))"
    "plainText (trim (toStr ([''industry'' \<mapsto> []] ''valueChainStep'')))"
    "plainText (trim (toStr ([''industry'' \<mapsto> []] ''department'')))"
    "plainText (trim (toStr ([''industry'' \<mapsto> []] ''search'')))"
    by (simp_all add: plainText_def e)
  have m: "matchingRows [''industry'' \<mapsto> []] sampleStoreAuto = [sampleRowAuto]"
    using matchingRows_selects [where q = "[''industry'' \<mapsto> []]" and st = sampleStoreAuto, OF p]
    by (simp add: selects_def paramEquals_def paramOccurs_def sampleStoreAuto_def e)
  have o: "orderByCreatedAtDesc [sampleRowAuto] = [sampleRowAuto]"
    by (simp add: orderByCreatedAtDesc_def)
  have n: "\<not> selectsAsStated [''industry'' \<mapsto> []] sampleRowAuto"
    by (simp add: selectsAsStated_def equalsField_def sampleRowAuto_def toLowerCase_def)
  have c: "\<lceil>(1::real) / 20\<rceil> = 1"
    using ceiling_pages [of 20 1] by simp
  show ?thesis
    using list_response [OF h1 h2 h3 h4 h5, of "''demo-api-key''" 6 sampleStoreAuto] n
    by (simp add: m o c sampleGet_def)
qed

text \<open>
  Claim C5, amended. For a query that passes validation and whose four filter parameters,
  once trimmed, contain no \<^verbatim>\<open>%\<close>, no \<^verbatim>\<open>_\<close> and no backslash (the database reads these three
  as pattern characters, and such parameters are left out here), the rows the list route
  pages through are exactly the rows of the table that satisfy all of: for each of
  \<open>industry\<close>, \<open>valueChainStep\<close> and \<open>department\<close> whose parameter is non-empty after
  trimming, the row's field is not \<^verbatim>\<open>null\<close> and equals the trimmed parameter without
  regard to case; and, when \<open>search\<close> is non-empty after trimming, the trimmed search
  string occurs without regard to case as a substring of the row's name, description or
  benefit. A parameter that is absent or empty after trimming does not filter.
\<close>

theorem list_filters:
  assumes "httpMethod req = ''GET''" and "path req = [''api'', ''use-cases'']"
    and "\<exists>q. handleValidationErrors paginationValidation (query req) = Inr q"
    and "plainText (trim (toStr (query req ''industry'')))"
    and "plainText (trim (toStr (query req ''valueChainStep'')))"
    and "plainText (trim (toStr (query req ''department'')))"
    and "plainText (trim (toStr (query req ''search'')))"
  shows "\<exists>pageN limitN resp.
           parseInt (orDefault (query req ''page'') ''1'') = Some pageN \<and>
           parseInt (orDefault (query req ''limit'') ''20'') = Some limitN \<and>
           app API_KEY now req st = ((200, ListBody resp), st) \<and>
           total (pagination resp) = int (length (filter (selects (query req)) (rows st))) \<and>
           data resp =
             take (nat limitN) (drop (nat ((pageN - 1) * limitN))
               (orderByCreatedAtDesc (filter (selects (query req)) (rows st)))) \<and>
           (\<forall>r. r \<in> set (data resp) \<longrightarrow> r \<in> set (rows st) \<and> selects (query req) r) \<and>
           (\<forall>r. r \<in> set (rows st) \<and> \<not> selects (query req) r \<longrightarrow> r \<notin> set (data resp)) \<and>
           (\<forall>x field. occursIn x field \<longleftrightarrow>
              (\<exists>v u w. field = Some v \<and> toLowerCase v = u @ toLowerCase x @ w))"
proof -
  have valid: "fst (runValidation paginationValidation (query req)) = []"
    using assms(3) by (auto simp: pagination_validation_Inr)
  obtain pageN where pg: "parseInt (orDefault (query req ''page'') ''1'') = Some pageN" "1 \<le> pageN"
    using valid_page [OF valid] by blast
  obtain limitN where lm: "parseInt (orDefault (query req ''limit'') ''20'') = Some limitN"
      "1 \<le> limitN" "limitN \<le> 100"
    using valid_limit [OF valid] by blast
  define S where "S = filter (selects (query req)) (rows st)"
  define resp where "resp =
     \<lparr>data = take (nat limitN) (drop (nat ((pageN - 1) * limitN)) (orderByCreatedAtDesc S)),
      pagination =
        \<lparr>page = pageN, limit = limitN, total = int (length S),
         totalPages = \<lceil>real_of_int (int (length S)) / real_of_int limitN\<rceil>,
         hasNext = (pageN < \<lceil>real_of_int (int (length S)) / real_of_int limitN\<rceil>),
         hasPrev = (pageN > 1)\<rparr>,
      filters =
        \<lparr>f_industry = map_option trim (query req ''industry''),
         f_valueChainStep = map_option trim (query req ''valueChainStep''),
         f_department = map_option trim (query req ''department''),
         f_search = map_option trim (query req ''search'')\<rparr>\<rparr>"
  have r: "app API_KEY now req st = ((200, ListBody resp), st)"
    using list_response [OF assms(1,2) valid pg(1) lm(1) pg(2) lm(2)]
    by (simp add: resp_def S_def matchingRows_selects [OF assms(4-7)])
  have t: "total (pagination resp) = int (length S)"
    and d: "data resp =
              take (nat limitN) (drop (nat ((pageN - 1) * limitN)) (orderByCreatedAtDesc S))"
    by (simp_all add: resp_def)
  have "set (data resp) \<subseteq> set (orderByCreatedAtDesc S)"
    unfolding d by (meson set_take_subset set_drop_subset subset_trans)
  then have sub: "set (data resp) \<subseteq> set S"
    by (simp add: orderByCreatedAtDesc_def)
  have i: "\<forall>r. r \<in> set (data resp) \<longrightarrow> r \<in> set (rows st) \<and> selects (query req) r"
    using sub by (auto simp: S_def)
  then have e: "\<forall>r. r \<in> set (rows st) \<and> \<not> selects (query req) r \<longrightarrow> r \<notin> set (data resp)"
    by blast
  show ?thesis
    using pg(1) lm(1) r t d i e occursIn_iff unfolding S_def by blast
qed


theorem list_filters_witness:
  "\<exists>resp.
     app ''demo-api-key'' 6
         (sampleGet [''api'', ''use-cases'']
            [''industry'' \<mapsto> '' AUTOMOTIVE '', ''search'' \<mapsto> ''PREDICT'']) sampleStoreAuto =
       ((200, ListBody resp), sampleStoreAuto) \<and>
     total (pagination resp) = 1 \<and> data resp = [sampleRowAuto]"
proof -
  let ?q = "[''industry'' \<mapsto> '' AUTOMOTIVE '', ''search'' \<mapsto> ''PREDICT'']"
  let ?req = "sampleGet [''api'', ''use-cases''] ?q"
  have h1: "httpMethod ?req = ''GET''" and h2: "path ?req = [''api'', ''use-cases'']"
    and q: "query ?req = ?q"
    by (simp_all add: sampleGet_def)
  have t: "trim '' AUTOMOTIVE '' = ''AUTOMOTIVE''" "trim ''PREDICT'' = ''PREDICT''"
    by (simp_all add: trim_def isWhitespace_def)
  have h3: "\<exists>q. handleValidationErrors paginationValidation (query ?req) = Inr q"
    by (simp add: pagination_validation_Inr pagination_validation_errors sampleGet_def t)
  have e: "trim [] = []"
    by (simp add: trim_def)
  have p: "plainText (trim (toStr (query ?req ''industry'')))"
    "plainText (trim (toStr (query ?req ''valueChainStep'')))"
    "plainText (trim (toStr (query ?req ''department'')))"
    "plainText (trim (toStr (query ?req ''search'')))"
    by (simp_all add: sampleGet_def t e plainText_def plainChar_def)
  have s: "selects ?q sampleRowAuto"
    by code_simp
  have f: "filter (selects ?q) (rows sampleStoreAuto) = [sampleRowAuto]"
    using s by (simp add: sampleStoreAuto_def)
  have o: "orderByCreatedAtDesc [sampleRowAuto] = [sampleRowAuto]"
    by (simp add: orderByCreatedAtDesc_def)
  obtain pageN limitN resp where w:
    "parseInt (orDefault (query ?req ''page'') ''1'') = Some pageN"
    "parseInt (orDefault (query ?req ''limit'') ''20'') = Some limitN"
    "app ''demo-api-key'' 6 ?req sampleStoreAuto = ((200, ListBody resp), sampleStoreAuto)"
    "total (pagination resp) = int (length (filter (selects (query ?req)) (rows sampleStoreAuto)))"
    "data resp =
       take (nat limitN) (drop (nat ((pageN - 1) * limitN))
         (orderByCreatedAtDesc (filter (selects (query ?req)) (rows sampleStoreAuto))))"
    using list_filters [OF h1 h2 h3 p, of "''demo-api-key''" 6 sampleStoreAuto] by blast
  have p: "pageN = 1" "limitN = 20"
    using w(1,2) by (simp_all add: sampleGet_def parse_defaults)
  have "total (pagination resp) = 1" using w(4) by (simp add: q f)
  moreover have "data resp = [sampleRowAuto]" using w(5) by (simp add: q f o p)
  ultimately show ?thesis using w(3) by blast
qed


text \<open>
  A parameter with one of the three pattern characters is compared as a pattern:
  \<^verbatim>\<open>?industry=Automoti_e\<close> and \<^verbatim>\<open>?search=%\<close> both select the row of industry
  \<^verbatim>\<open>Automotive\<close>, which neither equals the one nor contains the other.
\<close>

lemma pattern_parameters:
  "matchingRows [''industry'' \<mapsto> ''Automoti_e''] sampleStoreAuto = [sampleRowAuto]"
  "matchingRows [''search'' \<mapsto> ''%''] sampleStoreAuto = [sampleRowAuto]"
  "\<not> selects [''industry'' \<mapsto> ''Automoti_e''] sampleRowAuto"
  "\<not> selects [''search'' \<mapsto> ''%''] sampleRowAuto"
  by code_simp+


section \<open>Running the import twice\<close>

lemma nameTaken_append:
  "nameTaken (st\<lparr>rows := rows st @ [r], nextId := k\<rparr>) n \<longleftrightarrow>
     nameTaken st n \<or> ilike (useCase r) n"
  by (auto simp: nameTaken_def list_ex_iff)

lemma processRow_step:
  assumes "validRecord row \<longrightarrow> noBackslash (recordKey row)"
  shows "\<exists>s' w' st'.
     processRow now i row (s, w, st) = (s', w', st') \<and>
     (\<forall>n. nameTaken st n \<longrightarrow> nameTaken st' n) \<and>
     (validRecord row \<longrightarrow> nameTaken st' (recordKey row)) \<and>
     inserted s' + duplicates s' = inserted s + duplicates s + (if validRecord row then 1 else 0) \<and>
     skipped s' = skipped s + (if validRecord row then 0 else 1) \<and>
     errors s' = errors s"
proof (cases "validRecord row")
  case False
  then obtain reason where
    "processRow now i row (s, w, st) =
       (s\<lparr>skipped := skipped s + 1, errorDetails := errorDetails s @ [(i + 2, reason)]\<rparr>, w, st)"
    using processRow_skipped [of row now i s w st] by (auto simp: validRecord_def)
  then show ?thesis using False by simp
next
  case True
  then have v: "truthy (normalizeValue (row ''Use Case''))"
    "truthy (normalizeValue (row ''Concept description''))"
    by (simp_all add: validRecord_def)
  have self: "ilike (recordKey row) (recordKey row)"
    using assms True by (simp add: ilike_self)
  show ?thesis
  proof (cases "nameTaken st (recordKey row)")
    case True
    then have "processRow now i row (s, w, st) = (s\<lparr>duplicates := duplicates s + 1\<rparr>, w, st)"
      using processRow_duplicate [OF v, of st now i s w] by (simp add: recordKey_def)
    then show ?thesis using True \<open>validRecord row\<close> by simp
  next
    case False
    then have "\<not> nameTaken st (toStr (normalizeValue (row ''Use Case'')))"
      by (simp add: recordKey_def)
    from processRow_inserted [OF v this, of now i s w]
    show ?thesis using \<open>validRecord row\<close> self
      by (simp add: Let_def nameTaken_append recordKey_def)
  qed
qed

lemma processRow_known:
  assumes "validRecord row \<longrightarrow> nameTaken st (recordKey row)"
  shows "\<exists>s'. processRow now i row (s, w, st) = (s', w, st) \<and>
           inserted s' = inserted s \<and>
           duplicates s' = duplicates s + (if validRecord row then 1 else 0) \<and>
           skipped s' = skipped s + (if validRecord row then 0 else 1) \<and>
           errors s' = errors s"
proof (cases "validRecord row")
  case False
  then obtain reason where
    "processRow now i row (s, w, st) =
       (s\<lparr>skipped := skipped s + 1, errorDetails := errorDetails s @ [(i + 2, reason)]\<rparr>, w, st)"
    using processRow_skipped [of row now i s w st] by (auto simp: validRecord_def)
  then show ?thesis using False by simp
next
  case True
  then have v: "truthy (normalizeValue (row ''Use Case''))"
    "truthy (normalizeValue (row ''Concept description''))"
    by (simp_all add: validRecord_def)
  have "nameTaken st (recordKey row)" using assms True by simp
  then have "processRow now i row (s, w, st) = (s\<lparr>duplicates := duplicates s + 1\<rparr>, w, st)"
    using processRow_duplicate [OF v, of st now i s w] by (simp add: recordKey_def)
  then show ?thesis using True by simp
qed

lemma importRows_first_run:
  assumes "\<forall>row \<in> set records. validRecord row \<longrightarrow> noBackslash (recordKey row)"
  shows "\<exists>s' w' st'.
     importRows clock i records (s, w, st) = (s', w', st') \<and>
     (\<forall>n. nameTaken st n \<longrightarrow> nameTaken st' n) \<and>
     (\<forall>row \<in> set records. validRecord row \<longrightarrow> nameTaken st' (recordKey row)) \<and>
     inserted s' + duplicates s' =
       inserted s + duplicates s + length (filter validRecord records) \<and>
     skipped s' = skipped s + length (filter (\<lambda>row. \<not> validRecord row) records) \<and>
     errors s' = errors s"
  using assms
proof (induction records arbitrary: i s w st)
  case Nil
  then show ?case by simp
next
  case (Cons row records)
  have plain: "validRecord row \<longrightarrow> noBackslash (recordKey row)"
    and plains: "\<forall>row \<in> set records. validRecord row \<longrightarrow> noBackslash (recordKey row)"
    using Cons.prems by simp_all
  obtain s1 w1 st1 where one:
    "processRow (clock i) i row (s, w, st) = (s1, w1, st1)"
    "\<forall>n. nameTaken st n \<longrightarrow> nameTaken st1 n"
    "validRecord row \<longrightarrow> nameTaken st1 (recordKey row)"
    "inserted s1 + duplicates s1 = inserted s + duplicates s + (if validRecord row then 1 else 0)"
    "skipped s1 = skipped s + (if validRecord row then 0 else 1)"
    "errors s1 = errors s"
    using processRow_step [OF plain, of "clock i" i s w st] by blast
  obtain s' w' st' where rest:
    "importRows clock (Suc i) records (s1, w1, st1) = (s', w', st')"
    "\<forall>n. nameTaken st1 n \<longrightarrow> nameTaken st' n"
    "\<forall>row \<in> set records. validRecord row \<longrightarrow> nameTaken st' (recordKey row)"
    "inserted s' + duplicates s' =
       inserted s1 + duplicates s1 + length (filter validRecord records)"
    "skipped s' = skipped s1 + length (filter (\<lambda>row. \<not> validRecord row) records)"
    "errors s' = errors s1"
    using Cons.IH [OF plains, of "Suc i" s1 w1 st1] by blast
  have "importRows clock i (row # records) (s, w, st) = (s', w', st')"
    using one(1) rest(1) by simp
  moreover have "\<forall>n. nameTaken st n \<longrightarrow> nameTaken st' n"
    using one(2) rest(2) by blast
  moreover have "\<forall>r \<in> set (row # records). validRecord r \<longrightarrow> nameTaken st' (recordKey r)"
    using one(3) rest(2,3) by simp
  moreover have "inserted s' + duplicates s' =
      inserted s + duplicates s + length (filter validRecord (row # records))"
    using one(4) rest(4) by simp
  moreover have "skipped s' =
      skipped s + length (filter (\<lambda>row. \<not> validRecord row) (row # records))"
    using one(5) rest(5) by simp
  moreover have "errors s' = errors s" using one(6) rest(6) by simp
  ultimately show ?case by blast
qed

lemma importRows_second_run:
  assumes "\<forall>row \<in> set records. validRecord row \<longrightarrow> nameTaken st (recordKey row)"
  shows "\<exists>s'.
     importRows clock i records (s, w, st) = (s', w, st) \<and>
     inserted s' = inserted s \<and>
     duplicates s' = duplicates s + length (filter validRecord records) \<and>
     skipped s' = skipped s + length (filter (\<lambda>row. \<not> validRecord row) records) \<and>
     errors s' = errors s"
  using assms
proof (induction records arbitrary: i s)
  case Nil
  then show ?case by simp
next
  case (Cons row records)
  have known: "validRecord row \<longrightarrow> nameTaken st (recordKey row)"
    using Cons.prems by simp
  obtain s1 where one:
    "processRow (clock i) i row (s, w, st) = (s1, w, st)"
    "inserted s1 = inserted s"
    "duplicates s1 = duplicates s + (if validRecord row then 1 else 0)"
    "skipped s1 = skipped s + (if validRecord row then 0 else 1)"
    "errors s1 = errors s"
    using processRow_known [OF known, of "clock i" i s w] by blast
  have sub: "\<forall>row \<in> set records. validRecord row \<longrightarrow> nameTaken st (recordKey row)"
    using Cons.prems by simp
  obtain s' where rest:
    "importRows clock (Suc i) records (s1, w, st) = (s', w, st)"
    "inserted s' = inserted s1"
    "duplicates s' = duplicates s1 + length (filter validRecord records)"
    "skipped s' = skipped s1 + length (filter (\<lambda>row. \<not> validRecord row) records)"
    "errors s' = errors s1"
    using Cons.IH [OF sub, of "Suc i" s1] by blast
  have "importRows clock i (row # records) (s, w, st) = (s', w, st)"
    using one(1) rest(1) by simp
  then show ?case using one rest by auto
qed


text \<open>
  Claim C7, as stated, fails when the file itself holds a name twice: from the empty table
  the first run over the sample file inserts one row and counts one duplicate, and the
  second run counts two duplicates, not one.
\<close>

theorem second_run_duplicates:
  "inserted (fst (importUseCases sampleClock sampleFile emptyStore)) = 1 \<and>
   duplicates
     (fst (importUseCases sampleClock sampleFile
        (snd (snd (importUseCases sampleClock sampleFile emptyStore))))) = 2"
  by code_simp

text \<open>
  Claim C7, amended. For a file in which no name of a record with both required fields
  contains a backslash: a second run of the import script over the same records, on the
  table the first run left, inserts nothing and leaves the table as it is; it writes no
  warning and counts no error; it skips the records the first run skipped; and its
  duplicate count is the number of records with both required fields, which is the number
  of rows the first run inserted plus the number it counted as duplicates. (A name with a
  backslash is read by the existence check as a pattern with an escape, and need not match
  the row stored under it.)
\<close>

theorem import_idempotent:
  assumes "\<forall>row \<in> set records. validRecord row \<longrightarrow> noBackslash (recordKey row)"
  shows "\<exists>s1 w1 st1 s2.
     importUseCases clock1 records st = (s1, w1, st1) \<and>
     importUseCases clock2 records st1 = (s2, [], st1) \<and>
     inserted s2 = 0 \<and>
     duplicates s2 = length (filter validRecord records) \<and>
     duplicates s2 = inserted s1 + duplicates s1 \<and>
     skipped s2 = skipped s1 \<and> errors s2 = 0"
proof -
  let ?init = "initialStats (length records)"
  obtain s1 w1 st1 where first:
    "importRows clock1 0 records (?init, [], st) = (s1, w1, st1)"
    "\<forall>row \<in> set records. validRecord row \<longrightarrow> nameTaken st1 (recordKey row)"
    "inserted s1 + duplicates s1 =
       inserted ?init + duplicates ?init + length (filter validRecord records)"
    "skipped s1 = skipped ?init + length (filter (\<lambda>row. \<not> validRecord row) records)"
    using importRows_first_run [OF assms, of clock1 0 ?init "[]" st] by blast
  obtain s2 where second:
    "importRows clock2 0 records (?init, [], st1) = (s2, [], st1)"
    "inserted s2 = inserted ?init"
    "duplicates s2 = duplicates ?init + length (filter validRecord records)"
    "skipped s2 = skipped ?init + length (filter (\<lambda>row. \<not> validRecord row) records)"
    "errors s2 = errors ?init"
    using importRows_second_run [OF first(2), of clock2 0 ?init "[]"] by blast
  have z: "inserted ?init = 0" "duplicates ?init = 0" "skipped ?init = 0" "errors ?init = 0"
    by (simp_all add: initialStats_def)
  have "importUseCases clock1 records st = (s1, w1, st1)"
    using first(1) by (simp add: importUseCases_def)
  moreover have "importUseCases clock2 records st1 = (s2, [], st1)"
    using second(1) by (simp add: importUseCases_def)
  moreover have "inserted s2 = 0" "errors s2 = 0" "skipped s2 = skipped s1"
    "duplicates s2 = length (filter validRecord records)"
    "duplicates s2 = inserted s1 + duplicates s1"
    using first(3,4) second(2-5) z by simp_all
  ultimately show ?thesis by blast
qed

lemma sample_records_valid:
  "validRecord (sampleRecord ''Predictive Maintenance'' ''example.com'')"
  "validRecord (sampleRecord ''predictive maintenance'' ''example.com'')"
  "validRecord (sampleRecord ''100% Inspection_v2'' ''not a url'')"
  "\<not> validRecord (sampleRecord [] [])"
  "noBackslash (recordKey (sampleRecord ''Predictive Maintenance'' ''example.com''))"
  "noBackslash (recordKey (sampleRecord ''predictive maintenance'' ''example.com''))"
  "noBackslash (recordKey (sampleRecord ''100% Inspection_v2'' ''not a url''))"
  by code_simp+

theorem import_idempotent_witness:
  "\<exists>s1 w1 st1 s2.
     importUseCases sampleClock sampleFileMixed sampleStore = (s1, w1, st1) \<and>
     importUseCases sampleClock sampleFileMixed st1 = (s2, [], st1) \<and>
     inserted s2 = 0 \<and> duplicates s2 = 3 \<and> inserted s1 + duplicates s1 = 3 \<and>
     skipped s2 = skipped s1 \<and> errors s2 = 0"
proof -
  have h: "\<forall>row \<in> set sampleFileMixed. validRecord row \<longrightarrow> noBackslash (recordKey row)"
    by (simp add: sampleFileMixed_def sampleFile_def sample_records_valid)
  have n: "length (filter validRecord sampleFileMixed) = 3"
    by (simp add: sampleFileMixed_def sampleFile_def sample_records_valid)
  show ?thesis
    using import_idempotent [OF h, of sampleClock sampleStore sampleClock] unfolding n
    by metis
qed


section \<open>Invariants of the table\<close>

lemma invariant_append:
  assumes "storeInvariant st" "rowId r = nextId st" "requiredPresent r"
  shows "storeInvariant (st\<lparr>rows := rows st @ [r], nextId := Suc (nextId st)\<rparr>)"
proof -
  have "list_all (\<lambda>x. rowId x < Suc (nextId st)) (rows st)"
    using assms(1) by (auto simp: storeInvariant_def idsGenerated_def list_all_iff)
  then show ?thesis
    using assms by (simp add: storeInvariant_def idsGenerated_def)
qed

lemma createUseCase_store:
  assumes "b ''useCase'' = Some u" "b ''conceptDescription'' = Some d"
    and "trim u \<noteq> []" "trim d \<noteq> []"
  shows "snd (createUseCase now b st) = st \<or>
         (\<exists>r. snd (createUseCase now b st) =
                 st\<lparr>rows := rows st @ [r], nextId := Suc (nextId st)\<rparr> \<and>
              rowId r = nextId st \<and> requiredPresent r \<and>
              useCase r = trim u \<and> \<not> nameTaken st (trim u))"
proof (cases "nameTaken st (trim u)")
  case True
  then show ?thesis using createUseCase_conflict [OF assms(1,2) True, of now] by simp
next
  case False
  define r where "r = \<lparr>useCase = trim u, conceptDescription = trim d,
                     concreteImplementation = map_option trim (b ''concreteImplementation''),
                     benefit = map_option trim (b ''benefit''),
                     industry = map_option trim (b ''industry''),
                     department = map_option trim (b ''department''),
                     valueChainStep = map_option trim (b ''valueChainStep''),
                     url = map_option trim (b ''url''),
                     rowId = nextId st, createdAt = now, updatedAt = now\<rparr>"
  have "snd (createUseCase now b st) = st\<lparr>rows := rows st @ [r], nextId := Suc (nextId st)\<rparr>"
    using createUseCase_created [OF assms(1,2) False, of now] by (simp add: Let_def r_def)
  moreover have "rowId r = nextId st" "requiredPresent r" "useCase r = trim u"
    using assms(3,4) by (simp_all add: r_def requiredPresent_def)
  ultimately show ?thesis using False by blast
qed

lemma app_store:
  "snd (app API_KEY now req st) = st \<or>
   (\<exists>r. snd (app API_KEY now req st) = st\<lparr>rows := rows st @ [r], nextId := Suc (nextId st)\<rparr> \<and>
        rowId r = nextId st \<and> requiredPresent r \<and>
        useCase r = trim (toStr (body req ''useCase'')) \<and> \<not> nameTaken st (useCase r))"
proof (cases "handleValidationErrors createUseCaseValidation (body req)")
  case (Inl e)
  then have "snd (app API_KEY now req st) = st"
    by (auto simp: app_def routes_def split: option.splits sum.splits)
  then show ?thesis by simp
next
  case (Inr b)
  then have ok: "fst (runValidation createUseCaseValidation (body req)) = []"
    and b: "b = snd (runValidation createUseCaseValidation (body req))"
    by (simp_all add: create_validation_Inr)
  have bu: "b ''useCase'' = Some (trim (toStr (body req ''useCase'')))"
    and bd: "b ''conceptDescription'' = Some (trim (toStr (body req ''conceptDescription'')))"
    unfolding b create_validation_fields by simp_all
  have ne: "trim (trim (toStr (body req ''useCase''))) \<noteq> []"
    "trim (trim (toStr (body req ''conceptDescription''))) \<noteq> []"
    using ok by (auto simp: create_validation_errors)
  have "snd (app API_KEY now req st) = st \<or>
        snd (app API_KEY now req st) = snd (createUseCase now b st)"
    using Inr by (auto simp: app_def routes_def split: option.splits sum.splits)
  then show ?thesis
    using createUseCase_store [OF bu bd ne, of now st] by auto
qed

lemma normalizeValue_present:
  "truthy (normalizeValue v) \<Longrightarrow>
   trim (toStr (normalizeValue v)) = toStr (normalizeValue v) \<and> toStr (normalizeValue v) \<noteq> []"
  by (cases v) (auto simp: normalizeValue_def Let_def split: if_splits)

lemma processRow_store:
  "snd (snd (processRow now i row (s, w, st))) = st \<or>
   (\<exists>r. snd (snd (processRow now i row (s, w, st))) =
           st\<lparr>rows := rows st @ [r], nextId := Suc (nextId st)\<rparr> \<and>
        rowId r = nextId st \<and> requiredPresent r \<and>
        validRecord row \<and> useCase r = recordKey row \<and> \<not> nameTaken st (useCase r))"
proof (cases "validRecord row")
  case False
  then show ?thesis
    using processRow_skipped [of row now i s w st] by (auto simp: validRecord_def)
next
  case True
  then have v: "truthy (normalizeValue (row ''Use Case''))"
    "truthy (normalizeValue (row ''Concept description''))"
    by (simp_all add: validRecord_def)
  show ?thesis
  proof (cases "nameTaken st (recordKey row)")
    case True
    then show ?thesis
      using processRow_duplicate [OF v, of st now i s w] by (simp add: recordKey_def)
  next
    case False
    then have fresh: "\<not> nameTaken st (toStr (normalizeValue (row ''Use Case'')))"
      by (simp add: recordKey_def)
    define r where "r = \<lparr>useCase = toStr (normalizeValue (row ''Use Case'')),
                     conceptDescription = toStr (normalizeValue (row ''Concept description'')),
                     concreteImplementation = normalizeValue (row ''Concrete implementation''),
                     benefit = normalizeValue (row ''Benefit''),
                     industry = normalizeValue (row ''Industry''),
                     department = normalizeValue (row ''Department''),
                     valueChainStep = normalizeValue (row ''Value Chain Step''),
                     url = normalizeValue (row ''URL''),
                     rowId = nextId st, createdAt = now, updatedAt = now\<rparr>"
    have "snd (snd (processRow now i row (s, w, st))) =
            st\<lparr>rows := rows st @ [r], nextId := Suc (nextId st)\<rparr>"
      using processRow_inserted [OF v fresh, of now i s w] by (simp add: Let_def r_def)
    moreover have "rowId r = nextId st" "requiredPresent r" "useCase r = recordKey row"
      using normalizeValue_present [OF v(1)] normalizeValue_present [OF v(2)]
      by (simp_all add: r_def requiredPresent_def recordKey_def)
    ultimately show ?thesis using False \<open>validRecord row\<close> by auto
  qed
qed

lemma app_invariant:
  "storeInvariant st \<Longrightarrow> storeInvariant (snd (app API_KEY now req st))"
  using app_store [of API_KEY now req st] invariant_append [of st] by auto

lemma processRow_invariant:
  "storeInvariant st \<Longrightarrow> storeInvariant (snd (snd (processRow now i row (s, w, st))))"
  using processRow_store [of now i row s w st] invariant_append [of st] by auto

lemma importRows_invariant:
  "storeInvariant (snd (snd acc)) \<Longrightarrow> storeInvariant (snd (snd (importRows clock i records acc)))"
proof (induction records arbitrary: i acc)
  case Nil
  then show ?case by simp
next
  case (Cons row records)
  obtain s w st where acc: "acc = (s, w, st)" by (cases acc) auto
  have "storeInvariant (snd (snd (processRow (clock i) i row acc)))"
    using Cons.prems processRow_invariant [of st "clock i" i row s w] by (simp add: acc)
  then show ?case using Cons.IH by simp
qed

lemma perform_invariant:
  "storeInvariant st \<Longrightarrow> storeInvariant (perform st op)"
proof (cases op)
  case (Serve API_KEY now req)
  assume "storeInvariant st"
  then show ?thesis using Serve app_invariant by simp
next
  case (RunImport clock records)
  assume "storeInvariant st"
  then show ?thesis
    using RunImport importRows_invariant [of "(initialStats (length records), [], st)" clock 0 records]
    by (simp add: importUseCases_def)
qed

lemma foldl_invariant:
  "storeInvariant st \<Longrightarrow> storeInvariant (foldl perform st ops)"
  by (induction ops arbitrary: st) (simp_all add: perform_invariant)

lemma emptyStore_invariant: "storeInvariant emptyStore"
  by (simp add: storeInvariant_def idsGenerated_def emptyStore_def)

text \<open>
  The first half of claim C9 holds: after any sequence of requests to the application and
  runs of the import script, performed one after the other from the empty table, every
  stored row has a name and a description that are non-empty after trimming, and the ids
  are those the sequence generated.
\<close>

lemma required_fields_present:
  "list_all (\<lambda>r. trim (useCase r) \<noteq> [] \<and> trim (conceptDescription r) \<noteq> [])
     (rows (performAll ops)) \<and>
   idsGenerated (performAll ops)"
proof -
  have "storeInvariant (performAll ops)"
    unfolding performAll_def by (rule foldl_invariant [OF emptyStore_invariant])
  then show ?thesis
    by (simp add: storeInvariant_def list_all_iff requiredPresent_def)
qed

text \<open>
  The second half of claim C9 holds as long as no name with a backslash is written: a name
  without a backslash matches every stored name that equals it without regard to case, so
  the existence check keeps the names distinct.
\<close>

lemma distinct_append:
  assumes "namesDistinct st" "\<not> nameTaken st (useCase r)" "noBackslash (useCase r)"
  shows "namesDistinct (st\<lparr>rows := rows st @ [r], nextId := k\<rparr>)"
proof -
  have "toLowerCase (useCase r) \<notin> set (map (\<lambda>x. toLowerCase (useCase x)) (rows st))"
  proof
    assume "toLowerCase (useCase r) \<in> set (map (\<lambda>x. toLowerCase (useCase x)) (rows st))"
    then obtain x where x: "x \<in> set (rows st)"
      "toLowerCase (useCase x) = toLowerCase (useCase r)"
      by auto
    have "ilike (useCase x) (useCase r) = ilike (useCase r) (useCase r)"
      using x(2) by (simp add: ilike_def)
    then have "ilike (useCase x) (useCase r)"
      using ilike_self [OF assms(3)] by simp
    then show False
      using assms(2) x(1) by (auto simp: nameTaken_def list_ex_iff)
  qed
  then show ?thesis
    using assms(1) by (simp add: namesDistinct_def)
qed

lemma app_distinct:
  assumes "namesDistinct st" "noBackslash (trim (toStr (body req ''useCase'')))"
  shows "namesDistinct (snd (app API_KEY now req st))"
  using app_store [of API_KEY now req st] distinct_append [of st] assms by auto

lemma processRow_distinct:
  assumes "namesDistinct st" "validRecord row \<longrightarrow> noBackslash (recordKey row)"
  shows "namesDistinct (snd (snd (processRow now i row (s, w, st))))"
  using processRow_store [of now i row s w st] distinct_append [of st] assms by auto

lemma importRows_distinct:
  assumes "namesDistinct (snd (snd acc))"
    and "list_all (\<lambda>row. validRecord row \<longrightarrow> noBackslash (recordKey row)) records"
  shows "namesDistinct (snd (snd (importRows clock i records acc)))"
  using assms
proof (induction records arbitrary: i acc)
  case Nil
  then show ?case by simp
next
  case (Cons row records)
  obtain s w st where acc: "acc = (s, w, st)" by (cases acc) auto
  have "namesDistinct (snd (snd (processRow (clock i) i row acc)))"
    using Cons.prems processRow_distinct [of st row "clock i" i s w] by (simp add: acc)
  then show ?case using Cons.IH Cons.prems(2) by simp
qed

lemma perform_distinct:
  assumes "namesDistinct st" "plainNames op"
  shows "namesDistinct (perform st op)"
proof (cases op)
  case (Serve API_KEY now req)
  then show ?thesis using assms app_distinct by simp
next
  case (RunImport clock records)
  then show ?thesis
    using assms
      importRows_distinct [of "(initialStats (length records), [], st)" records clock 0]
    by (simp add: importUseCases_def)
qed

lemma foldl_distinct:
  "namesDistinct st \<Longrightarrow> list_all plainNames ops \<Longrightarrow> namesDistinct (foldl perform st ops)"
  by (induction ops arbitrary: st) (simp_all add: perform_distinct)

lemma names_distinct:
  "list_all plainNames ops \<Longrightarrow> namesDistinct (performAll ops)"
  unfolding performAll_def
  by (rule foldl_distinct) (simp_all add: namesDistinct_def emptyStore_def)

lemma escaped_name:
  "trim escapedName = escapedName"
  "trim (toStr (body samplePostEscaped ''useCase'')) = escapedName"
  "trim (toStr (body samplePostEscaped ''conceptDescription'')) = ''Use ML to predict failures''"
  "\<exists>b. handleValidationErrors createUseCaseValidation (body samplePostEscaped) = Inr b"
  "completePattern escapedName"
  "\<not> nameTaken \<lparr>rows = [sampleRow\<lparr>useCase := escapedName\<rparr>], nextId = 2\<rparr> escapedName"
proof -
  show t: "trim escapedName = escapedName"
    by (simp add: escapedName_def trim_def isWhitespace_def)
  show "trim (toStr (body samplePostEscaped ''useCase'')) = escapedName"
    by (simp add: samplePostEscaped_def t)
  show "trim (toStr (body samplePostEscaped ''conceptDescription'')) =
          ''Use ML to predict failures''"
    by (simp add: samplePostEscaped_def sampleBody_def sample_trim)
  show "\<exists>b. handleValidationErrors createUseCaseValidation (body samplePostEscaped) = Inr b"
    by (simp add: create_validation_Inr create_validation_errors samplePostEscaped_def
          sampleBody_def sample_trim t)
       (simp add: escapedName_def)
  show "completePattern escapedName"
    by code_simp
  show "\<not> nameTaken \<lparr>rows = [sampleRow\<lparr>useCase := escapedName\<rparr>], nextId = 2\<rparr> escapedName"
    by code_simp
qed

text \<open>
  Claim C9 (the code differs). The second half fails for a name with a backslash. The
  existence check hands the name to the database as a pattern, in which the backslash
  escapes the character after it, so the pattern \<^verbatim>\<open>AI\ML pipeline\<close> stands for the text
  \<^verbatim>\<open>AIML pipeline\<close> and does not match the stored name \<^verbatim>\<open>AI\ML pipeline\<close>. Two POSTs of
  this name, one after the other from the empty table, are both answered 201 and leave two
  rows with the same name; two runs of the import script over a file with this one record
  do the same.
\<close>

theorem duplicate_names_stored:
  "app ''demo-api-key'' 5 samplePostEscaped emptyStore =
     ((201, CreatedBody ''Use case created successfully'' (sampleRow\<lparr>useCase := escapedName\<rparr>)),
      \<lparr>rows = [sampleRow\<lparr>useCase := escapedName\<rparr>], nextId = 2\<rparr>) \<and>
   app ''demo-api-key'' 6 samplePostEscaped
       \<lparr>rows = [sampleRow\<lparr>useCase := escapedName\<rparr>], nextId = 2\<rparr> =
     ((201, CreatedBody ''Use case created successfully''
              (sampleRow\<lparr>useCase := escapedName, rowId := 2, createdAt := 6, updatedAt := 6\<rparr>)),
      \<lparr>rows = [sampleRow\<lparr>useCase := escapedName\<rparr>,
               sampleRow\<lparr>useCase := escapedName, rowId := 2, createdAt := 6, updatedAt := 6\<rparr>],
       nextId = 3\<rparr>) \<and>
   map useCase
     (rows (performAll
        [Serve ''demo-api-key'' 5 samplePostEscaped, Serve ''demo-api-key'' 6 samplePostEscaped])) =
     [escapedName, escapedName] \<and>
   \<not> namesDistinct
       (performAll
          [Serve ''demo-api-key'' 5 samplePostEscaped, Serve ''demo-api-key'' 6 samplePostEscaped]) \<and>
   map useCase
     (rows (performAll
        [RunImport sampleClock [sampleRecord escapedName []],
         RunImport sampleClock [sampleRecord escapedName []]])) =
     [escapedName, escapedName]"
proof -
  let ?st1 = "\<lparr>rows = [sampleRow\<lparr>useCase := escapedName\<rparr>], nextId = 2\<rparr>"
  let ?r2 = "sampleRow\<lparr>useCase := escapedName, rowId := 2, createdAt := 6, updatedAt := 6\<rparr>"
  let ?row = "sampleRecord escapedName []"
  have h1: "httpMethod samplePostEscaped = ''POST''"
    and h2: "path samplePostEscaped = [''api'', ''use-cases'']"
    and h3: "''demo-api-key'' = [] \<or> headers samplePostEscaped ''x-api-key'' = Some ''demo-api-key''"
    by (simp_all add: samplePostEscaped_def)
  have f1: "\<not> nameTaken emptyStore (trim (toStr (body samplePostEscaped ''useCase'')))"
    by simp
  have f2: "\<not> nameTaken ?st1 (trim (toStr (body samplePostEscaped ''useCase'')))"
    by (simp only: escaped_name not_False_eq_True)
  have a: "app ''demo-api-key'' 5 samplePostEscaped emptyStore =
             ((201, CreatedBody ''Use case created successfully''
                      (sampleRow\<lparr>useCase := escapedName\<rparr>)), ?st1)"
    using post_created [OF h1 h2 h3 escaped_name(4) f1, where now = 5]
    by (simp add: Let_def escaped_name(2,3))
       (simp add: samplePostEscaped_def sampleBody_def sampleRow_def emptyStore_def
          numeral_2_eq_2)
  have b: "app ''demo-api-key'' 6 samplePostEscaped ?st1 =
             ((201, CreatedBody ''Use case created successfully'' ?r2),
              \<lparr>rows = [sampleRow\<lparr>useCase := escapedName\<rparr>, ?r2], nextId = 3\<rparr>)"
    using post_created [OF h1 h2 h3 escaped_name(4) f2, where now = 6]
    by (simp add: Let_def escaped_name(2,3))
       (simp add: samplePostEscaped_def sampleBody_def sampleRow_def numeral_3_eq_3)
  have c: "performAll
             [Serve ''demo-api-key'' 5 samplePostEscaped, Serve ''demo-api-key'' 6 samplePostEscaped] =
           \<lparr>rows = [sampleRow\<lparr>useCase := escapedName\<rparr>, ?r2], nextId = 3\<rparr>"
    by (simp add: performAll_def a b)
  have d: "map useCase
             (rows (performAll [RunImport sampleClock [?row], RunImport sampleClock [?row]])) =
           [escapedName, escapedName]"
    by code_simp
  have e: "\<not> namesDistinct \<lparr>rows = [sampleRow\<lparr>useCase := escapedName\<rparr>, ?r2], nextId = 3\<rparr>"
    by (simp add: namesDistinct_def)
  show ?thesis
    using a b d e by (simp add: c)
qed

end
